theory Spec2Isabelle
  imports Main "HOL-Library.Char_ord"
begin

text \<open>
  A model of gURL, the editor extension that scans Go sources written against the Gin
  framework and writes a cURL command for each handler: the scanner (handlers, routes,
  group prefixes, struct fields, base address) and the request synthesiser, followed by
  the properties of the specification that were checked against them.
\<close>

section \<open>Strings of the scanned text\<close>

text \<open>
  The extension works on JavaScript strings. A string is modelled as a list of 8-bit
  characters, read as the code units 0..255; the scanned Go sources, the patterns and
  every literal of the program are ASCII. The functions below are the string methods
  the source calls, with the results JavaScript gives on such strings.
\<close>

definition isSpace :: "char \<Rightarrow> bool" where
  \<comment> \<open>the class \<open>\s\<close>, which is also what \<open>trim\<close> strips\<close>
  "isSpace c = (c \<in> set [CHR '' '', CHR 0x09, CHR 0x0A, CHR 0x0B, CHR 0x0C, CHR 0x0D, CHR 0xA0])"

definition isDigit :: "char \<Rightarrow> bool" where
  "isDigit c = (CHR ''0'' \<le> c \<and> c \<le> CHR ''9'')"

definition isUpper :: "char \<Rightarrow> bool" where
  "isUpper c = (CHR ''A'' \<le> c \<and> c \<le> CHR ''Z'')"

definition isLower :: "char \<Rightarrow> bool" where
  "isLower c = (CHR ''a'' \<le> c \<and> c \<le> CHR ''z'')"

definition identStart :: "char \<Rightarrow> bool" where
  \<comment> \<open>\<open>[A-Za-z_]\<close>\<close>
  "identStart c = (isUpper c \<or> isLower c \<or> c = CHR ''_'')"

definition isWordChar :: "char \<Rightarrow> bool" where
  \<comment> \<open>\<open>[A-Za-z0-9_]\<close>, the class \<open>\w\<close>\<close>
  "isWordChar c = (isUpper c \<or> isLower c \<or> isDigit c \<or> c = CHR ''_'')"

definition lineTerminator :: "char \<Rightarrow> bool" where
  "lineTerminator c = (c = CHR 0x0A \<or> c = CHR 0x0D)"

definition startsWith :: "string \<Rightarrow> string \<Rightarrow> bool" where
  "startsWith s pre = (take (length pre) s = pre)"

definition endsWith :: "string \<Rightarrow> string \<Rightarrow> bool" where
  "endsWith s suf = (length suf \<le> length s \<and> drop (length s - length suf) s = suf)"

definition trim :: "string \<Rightarrow> string" where
  "trim s = rev (dropWhile isSpace (rev (dropWhile isSpace s)))"

definition slice :: "string \<Rightarrow> int \<Rightarrow> int \<Rightarrow> string" where
  \<comment> \<open>\<open>s.slice(a, b)\<close>: a negative index counts from the end, both are clamped\<close>
  "slice s a b =
     (let n = int (length s);
          st = (if a < 0 then max (n + a) 0 else min a n);
          en = (if b < 0 then max (n + b) 0 else min b n)
      in take (nat (en - st)) (drop (nat st) s))"

fun splitOn :: "char \<Rightarrow> string \<Rightarrow> string list" where
  \<comment> \<open>\<open>s.split(d)\<close> for a one-character separator: never the empty list\<close>
  "splitOn d [] = [[]]"
| "splitOn d (x # xs) =
     (if x = d then [] # splitOn d xs
      else (case splitOn d xs of [] \<Rightarrow> [[x]] | w # ws \<Rightarrow> (x # w) # ws))"

fun joinWith :: "string \<Rightarrow> string list \<Rightarrow> string" where
  "joinWith sep [] = []"
| "joinWith sep [x] = x"
| "joinWith sep (x # y # ys) = x @ sep @ joinWith sep (y # ys)"

definition toLowerChar :: "char \<Rightarrow> char" where
  \<comment> \<open>\<open>toLowerCase\<close> and \<open>toUpperCase\<close> on the ASCII letters, which is where the program uses them\<close>
  "toLowerChar c = (if isUpper c then char_of (of_char c + (32::nat)) else c)"

definition toUpperChar :: "char \<Rightarrow> char" where
  "toUpperChar c = (if isLower c then char_of (of_char c - (32::nat)) else c)"

definition orElse :: "string option \<Rightarrow> string \<Rightarrow> string" where
  \<comment> \<open>\<open>x || d\<close> on a string that may be undefined: the empty string is falsy too\<close>
  "orElse x d = (case x of None \<Rightarrow> d | Some v \<Rightarrow> if v = [] then d else v)"


section \<open>Regular expressions\<close>

text \<open>
  Every recogniser of the scanner is a JavaScript regular expression. The patterns are
  transcribed constructor by constructor into the datatype \<open>rx\<close>, and \<open>matches\<close> is the
  backtracking matcher: the list of all ways the pattern can match at the current
  position, in the order in which a backtracking engine tries them. The first element
  is the match JavaScript reports. A state is the character before the position
  (for \<open>\b\<close> and \<open>^\<close>), the rest of the input and the capture groups.
\<close>

type_synonym caps = "nat \<rightharpoonup> string"
type_synonym mstate = "char option \<times> string \<times> caps"

datatype rx =
    Eps
  | Cls "char \<Rightarrow> bool"
  | Str string
  | Seq rx rx
  | Alt rx rx
  | Star rx
  | LazyStar rx
  | Opt rx
  | Grp nat rx
  | WordB
  | Bol
  | Eol
  | NegLook rx

function matches :: "rx \<Rightarrow> char option \<Rightarrow> string \<Rightarrow> caps \<Rightarrow> mstate list" where
  "matches Eps p s c = [(p, s, c)]"
| "matches (Cls P) p s c =
     (case s of [] \<Rightarrow> [] | x # xs \<Rightarrow> if P x then [(Some x, xs, c)] else [])"
| "matches (Str l) p s c =
     (if l = [] then [(p, s, c)]
      else if take (length l) s = l then [(Some (last l), drop (length l) s, c)] else [])"
| "matches (Seq r1 r2) p s c =
     concat (map (\<lambda>st. matches r2 (fst st) (fst (snd st)) (snd (snd st))) (matches r1 p s c))"
| "matches (Alt r1 r2) p s c = matches r1 p s c @ matches r2 p s c"
| "matches (Star r) p [] c = [(p, [], c)]"
| "matches (Star r) p (x # xs) c =
     concat (map (\<lambda>st. matches (Star r) (fst st) (fst (snd st)) (snd (snd st)))
                 (filter (\<lambda>st. length (fst (snd st)) < Suc (length xs)) (matches r p (x # xs) c)))
     @ [(p, x # xs, c)]"
| "matches (LazyStar r) p [] c = [(p, [], c)]"
| "matches (LazyStar r) p (x # xs) c =
     (p, x # xs, c) #
     concat (map (\<lambda>st. matches (LazyStar r) (fst st) (fst (snd st)) (snd (snd st)))
                 (filter (\<lambda>st. length (fst (snd st)) < Suc (length xs)) (matches r p (x # xs) c)))"
| "matches (Opt r) p s c =
     filter (\<lambda>st. length (fst (snd st)) < length s) (matches r p s c) @ [(p, s, c)]"
| "matches (Grp n r) p s c =
     map (\<lambda>st. (fst st, fst (snd st),
                 (snd (snd st))(n \<mapsto> take (length s - length (fst (snd st))) s)))
         (matches r p s c)"
| "matches WordB p s c =
     (let a = (case p of None \<Rightarrow> False | Some x \<Rightarrow> isWordChar x);
          b = (case s of [] \<Rightarrow> False | x # _ \<Rightarrow> isWordChar x)
      in if a \<noteq> b then [(p, s, c)] else [])"
| "matches Bol p s c = (if p = None then [(p, s, c)] else [])"
| "matches Eol p s c = (if s = [] then [(p, s, c)] else [])"
| "matches (NegLook r) p s c = (if matches r p s c = [] then [(p, s, c)] else [])"
  by pat_completeness auto
termination
  by (relation "inv_image (less_than <*lex*> less_than) (\<lambda>(r, p, s, c). (size r, length s))") auto

text \<open>
  An iteration of a starred or optional pattern that consumes nothing is rejected, as
  the ECMAScript semantics of quantifiers says; this is the filter on the length of the
  rest. At the end of the input no iteration can consume anything.
\<close>

definition Plus :: "rx \<Rightarrow> rx" where
  "Plus r = Seq r (Star r)"

fun seqs :: "rx list \<Rightarrow> rx" where
  "seqs [] = Eps"
| "seqs [r] = r"
| "seqs (r # rs) = Seq r (seqs rs)"

fun alts :: "rx list \<Rightarrow> rx" where
  "alts [] = Cls (\<lambda>c. False)"
| "alts [r] = r"
| "alts (r # rs) = Alt r (alts rs)"

datatype rmatch = RMatch (index: nat) (lastIndex: nat) (groups: caps)

fun search :: "rx \<Rightarrow> char option \<Rightarrow> string \<Rightarrow> nat \<Rightarrow> rmatch option" where
  "search r p s i =
     (case matches r p s Map.empty of
        st # _ \<Rightarrow> Some (RMatch i (i + (length s - length (fst (snd st)))) (snd (snd st)))
      | [] \<Rightarrow> (case s of [] \<Rightarrow> None | x # xs \<Rightarrow> search r (Some x) xs (Suc i)))"

definition exec :: "rx \<Rightarrow> string \<Rightarrow> nat \<Rightarrow> rmatch option" where
  \<comment> \<open>\<open>re.exec(s)\<close> with \<open>re.lastIndex = start\<close>: the leftmost match at or after \<open>start\<close>\<close>
  "exec r s start =
     (if length s < start then None
      else search r (if start = 0 then None else Some (s ! (start - 1))) (drop start s) start)"

definition test :: "rx \<Rightarrow> string \<Rightarrow> bool" where
  "test r s = (exec r s 0 \<noteq> None)"

definition grp :: "rmatch \<Rightarrow> nat \<Rightarrow> string" where
  \<comment> \<open>\<open>m[k]\<close> of a group that took part in the match\<close>
  "grp m k = (case groups m k of None \<Rightarrow> [] | Some v \<Rightarrow> v)"

fun minLen :: "rx \<Rightarrow> nat" where
  "minLen Eps = 0"
| "minLen (Cls P) = 1"
| "minLen (Str l) = length l"
| "minLen (Seq r1 r2) = minLen r1 + minLen r2"
| "minLen (Alt r1 r2) = min (minLen r1) (minLen r2)"
| "minLen (Star r) = 0"
| "minLen (LazyStar r) = 0"
| "minLen (Opt r) = 0"
| "minLen (Grp n r) = minLen r"
| "minLen WordB = 0"
| "minLen Bol = 0"
| "minLen Eol = 0"
| "minLen (NegLook r) = 0"

lemma matches_length:
  "st \<in> set (matches r p s c) \<Longrightarrow> length (fst (snd st)) + minLen r \<le> length s"
proof (induction r p s c arbitrary: st rule: matches.induct)
  case (4 r1 r2 p s c)
  from "4.prems" obtain st1 where a: "st1 \<in> set (matches r1 p s c)"
    and b: "st \<in> set (matches r2 (fst st1) (fst (snd st1)) (snd (snd st1)))"
    by auto
  from "4.IH"(1)[OF a] "4.IH"(2)[OF a b] show ?case by simp
next
  case (7 r p x xs c)
  show ?case
  proof (cases "st = (p, x # xs, c)")
    case True
    then show ?thesis by simp
  next
    case False
    with "7.prems" obtain st1 where a: "st1 \<in> set (matches r p (x # xs) c)"
      and l: "length (fst (snd st1)) < Suc (length xs)"
      and b: "st \<in> set (matches (Star r) (fst st1) (fst (snd st1)) (snd (snd st1)))"
      by auto
    from "7.IH"(2)[of st1 st] a l b show ?thesis by simp
  qed
next
  case (9 r p x xs c)
  show ?case
  proof (cases "st = (p, x # xs, c)")
    case True
    then show ?thesis by simp
  next
    case False
    with "9.prems" obtain st1 where a: "st1 \<in> set (matches r p (x # xs) c)"
      and l: "length (fst (snd st1)) < Suc (length xs)"
      and b: "st \<in> set (matches (LazyStar r) (fst st1) (fst (snd st1)) (snd (snd st1)))"
      by auto
    from "9.IH"(2)[of st1 st] a l b show ?thesis by simp
  qed
next
  case (3 l p s c)
  show ?case
  proof (cases "l = []")
    case True
    with "3.prems" show ?thesis by simp
  next
    case False
    with "3.prems" have t: "take (length l) s = l" and st: "st = (Some (last l), drop (length l) s, c)"
      by (auto split: if_splits)
    have "length (take (length l) s) \<le> length s" by simp
    with t have "length l \<le> length s" by simp
    with st show ?thesis by simp
  qed
next
  case (5 r1 r2 p s c)
  from "5.prems" have "st \<in> set (matches r1 p s c) \<or> st \<in> set (matches r2 p s c)" by simp
  then show ?case
  proof
    assume "st \<in> set (matches r1 p s c)"
    from "5.IH"(1)[OF this] show ?thesis by simp
  next
    assume "st \<in> set (matches r2 p s c)"
    from "5.IH"(2)[OF this] show ?thesis by simp
  qed
qed (auto split: list.splits if_splits simp: Let_def)

lemma search_bounds:
  "search r p s i = Some m \<Longrightarrow>
     i \<le> index m \<and> index m + minLen r \<le> lastIndex m \<and> lastIndex m \<le> i + length s"
proof (induction s arbitrary: p i)
  case Nil
  show ?case
  proof (cases "matches r p [] Map.empty")
    case Nil
    with Nil.prems show ?thesis by simp
  next
    case (Cons st sts)
    then have "st \<in> set (matches r p [] Map.empty)" by simp
    from matches_length[OF this] Cons Nil.prems show ?thesis by auto
  qed
next
  case (Cons x xs)
  show ?case
  proof (cases "matches r p (x # xs) Map.empty")
    case Nil
    with Cons.prems have "search r (Some x) xs (Suc i) = Some m" by simp
    from Cons.IH[OF this] show ?thesis by simp
  next
    case (Cons st sts)
    then have "st \<in> set (matches r p (x # xs) Map.empty)" by simp
    from matches_length[OF this] Cons Cons.prems show ?thesis by auto
  qed
qed

lemma exec_bounds:
  "exec r s start = Some m \<Longrightarrow>
     start \<le> index m \<and> index m + minLen r \<le> lastIndex m \<and> lastIndex m \<le> length s"
  unfolding exec_def using search_bounds[of r _ "drop start s" start m]
  by (auto split: if_splits)






text \<open>
  The loop \<open>while ((m = re.exec(text))) { ... }\<close> over a global pattern: every match in
  turn, each search starting where the previous match ended. A match that ends where its
  search started is an empty match at \<open>lastIndex\<close>, on which the source loop would
  find the same match again; \<open>execAll_progress\<close> shows that a pattern with a positive
  minimal length never takes that branch, and every pattern of the program that is
  looped over has one (\<open>looped_patterns_minLen\<close> and \<open>accessor_minLen\<close> below).
\<close>

function execAll :: "rx \<Rightarrow> string \<Rightarrow> nat \<Rightarrow> rmatch list" where
  "execAll r s start =
     (case exec r s start of
        None \<Rightarrow> []
      | Some m \<Rightarrow> if start < lastIndex m then m # execAll r s (lastIndex m) else [])"
  by pat_completeness auto
termination
proof (relation "measure (\<lambda>(r, s, start). length s - start)")
  show "wf (measure (\<lambda>(r, s, start). length s - start))" by simp
next
  fix r s start m
  assume "exec r s start = Some m" "start < lastIndex m"
  with exec_bounds[of r s start m]
  show "((r, s, lastIndex m), (r, s, start)) \<in> measure (\<lambda>(r, s, start). length s - start)"
    by auto
qed

declare execAll.simps [simp del]

lemma execAll_progress:
  "0 < minLen r \<Longrightarrow>
   execAll r s start = (case exec r s start of None \<Rightarrow> [] | Some m \<Rightarrow> m # execAll r s (lastIndex m))"
  using exec_bounds[of r s start]
  by (subst execAll.simps) (auto split: option.splits)

lemma execAll_bounds:
  "m \<in> set (execAll r s start) \<Longrightarrow>
     start \<le> index m \<and> index m + minLen r \<le> lastIndex m \<and> lastIndex m \<le> length s"
proof (induction r s start rule: execAll.induct)
  case (1 r s start)
  show ?case
  proof (cases "exec r s start")
    case None
    with "1.prems" show ?thesis by (subst (asm) execAll.simps) simp
  next
    case (Some m')
    note b = exec_bounds[OF Some]
    show ?thesis
    proof (cases "start < lastIndex m'")
      case True
      with Some "1.prems" have "m = m' \<or> m \<in> set (execAll r s (lastIndex m'))"
        by (subst (asm) execAll.simps) simp
      then show ?thesis
      proof
        assume "m = m'"
        with b show ?thesis by simp
      next
        assume "m \<in> set (execAll r s (lastIndex m'))"
        from "1.IH"[OF Some True this] b True show ?thesis by simp
      qed
    next
      case False
      with Some "1.prems" show ?thesis by (subst (asm) execAll.simps) simp
    qed
  qed
qed

lemma execAll_ordered:
  "sorted_wrt (\<lambda>a b. lastIndex a \<le> index b) (execAll r s start)"
proof (induction r s start rule: execAll.induct)
  case (1 r s start)
  show ?case
  proof (cases "exec r s start")
    case None
    then show ?thesis by (subst execAll.simps) simp
  next
    case (Some m')
    show ?thesis
    proof (cases "start < lastIndex m'")
      case True
      have "\<forall>b \<in> set (execAll r s (lastIndex m')). lastIndex m' \<le> index b"
        using execAll_bounds by blast
      with "1.IH"[OF Some True] Some True show ?thesis
        by (subst execAll.simps) simp
    next
      case False
      with Some show ?thesis by (subst execAll.simps) simp
    qed
  qed
qed


section \<open>Pattern fragments\<close>

definition dq :: char where
  "dq = CHR 0x22"

definition backtick :: char where
  "backtick = CHR 0x60"

definition ident :: rx where
  \<comment> \<open>\<open>[A-Za-z_][A-Za-z0-9_]*\<close>\<close>
  "ident = Seq (Cls identStart) (Star (Cls isWordChar))"

definition ws :: rx where
  \<comment> \<open>\<open>\s*\<close>\<close>
  "ws = Star (Cls isSpace)"

definition ws1 :: rx where
  \<comment> \<open>\<open>\s+\<close>\<close>
  "ws1 = Plus (Cls isSpace)"

definition anyChar :: rx where
  \<comment> \<open>\<open>[^]\<close> and \<open>[\s\S]\<close>\<close>
  "anyChar = Cls (\<lambda>c. True)"

definition dot :: rx where
  \<comment> \<open>an unescaped \<open>.\<close>: any character but a line terminator\<close>
  "dot = Cls (\<lambda>c. \<not> lineTerminator c)"

definition notCh :: "char \<Rightarrow> rx" where
  "notCh d = Cls (\<lambda>c. c \<noteq> d)"

definition qualifiedIdent :: rx where
  \<comment> \<open>\<open>[A-Za-z_][A-Za-z0-9_]*(?:\.[A-Za-z_][A-Za-z0-9_]*)*\<close>\<close>
  "qualifiedIdent = Seq ident (Star (Seq (Str ''.'') ident))"

definition emptyCall :: rx where
  \<comment> \<open>\<open>(?:\s*\(\s*\))?\<close>\<close>
  "emptyCall = Opt (seqs [ws, Str ''('', ws, Str '')''])"

text \<open>
  Several patterns are built with \<open>new RegExp\<close> from a template into which the import
  alias, the context variable, a type name or a variable name is interpolated. Each of
  these is the text of an identifier capture (or the literal \<open>gin\<close>), so the
  interpolated text holds no pattern syntax and stands for itself: \<open>Str\<close>.
\<close>


section \<open>The scanner: data\<close>

datatype BodyType = Json | Form | Multipart | NoBody | Unknown

record StructField =
  name :: string
  goType :: string

record HandlerParams =
  pathParams :: "string list"
  queryParams :: "string list"
  headers :: "string list"
  cookies :: "string list"
  bodyType :: BodyType
  jsonStructName :: "string option"
  jsonFields :: "StructField list option"

record HandlerFunction =
  fnName :: string
  fnFilePath :: string
  nameRange :: "nat \<times> nat"
  contextParamName :: "string option"
  ginAlias :: string
  params :: HandlerParams

record RouteRegistration =
  httpMethod :: string
  path :: string
  handlerName :: string
  filePath :: string
  span :: "nat \<times> nat"

text \<open>
  A \<open>vscode.Range\<close> is kept as the pair of character offsets it is built from; the
  conversion of an offset to a line and column is the editor's.
\<close>

definition HTTP_METHODS :: "string list" where
  "HTTP_METHODS = [''GET'', ''POST'', ''PUT'', ''DELETE'', ''PATCH'', ''OPTIONS'', ''HEAD'']"

definition METHOD_ANY :: string where
  "METHOD_ANY = ''ANY''"


section \<open>The scanner: import alias and context parameter\<close>

definition importBlockRegex :: rx where
  \<comment> \<open>\<open>/import\s*\(([^]*?)\)/g\<close>\<close>
  "importBlockRegex = seqs [Str ''import'', ws, Str ''('', Grp 1 (LazyStar anyChar), Str '')'']"

definition aliasLine :: rx where
  \<comment> \<open>\<open>/\n\s*([a-zA-Z_][a-zA-Z0-9_]*)?\s*\"github.com\/gin-gonic\/gin\"/g\<close>\<close>
  "aliasLine = seqs [Str [CHR 0x0A], ws, Opt (Grp 1 ident), ws,
                     Str (dq # ''github''), dot, Str (''com/gin-gonic/gin'' @ [dq])]"

definition singleImport :: rx where
  \<comment> \<open>\<open>/import\s+([a-zA-Z_][a-zA-Z0-9_]*)?\s*\"github.com\/gin-gonic\/gin\"/\<close>\<close>
  "singleImport = seqs [Str ''import'', ws1, Opt (Grp 1 ident), ws,
                        Str (dq # ''github''), dot, Str (''com/gin-gonic/gin'' @ [dq])]"

fun aliasInBlocks :: "rmatch list \<Rightarrow> string option" where
  "aliasInBlocks [] = None"
| "aliasInBlocks (m # ms) =
     (case exec aliasLine (grp m 1) 0 of
        Some am \<Rightarrow> Some (orElse (groups am 1) ''gin'')
      | None \<Rightarrow> aliasInBlocks ms)"

definition detectGinAliasFromImports :: "string \<Rightarrow> string" where
  "detectGinAliasFromImports text =
     (case aliasInBlocks (execAll importBlockRegex text 0) of
        Some a \<Rightarrow> a
      | None \<Rightarrow>
          (case exec singleImport text 0 of
             Some m \<Rightarrow> orElse (groups m 1) ''gin''
           | None \<Rightarrow> ''gin''))"

definition extractContextParamName :: "string \<Rightarrow> string \<Rightarrow> string option" where
  "extractContextParamName signatureParams alias =
     (case exec (seqs [Grp 1 ident, ws, Str ''*'', ws, Str alias, Str ''.Context'']) signatureParams 0 of
        Some m \<Rightarrow> groups m 1
      | None \<Rightarrow> None)"


section \<open>The scanner: struct fields\<close>

definition lowerCamel :: "string \<Rightarrow> string" where
  "lowerCamel s = (case s of [] \<Rightarrow> [] | x # xs \<Rightarrow> toLowerChar x # xs)"

definition defRe :: "string \<Rightarrow> rx" where
  \<comment> \<open>\<open>type\s+${typeName}\s+struct\s*\{([\s\S]*?)\}\<close>\<close>
  "defRe typeName = seqs [Str ''type'', ws1, Str typeName, ws1, Str ''struct'', ws, Str ''{'',
                          Grp 1 (LazyStar anyChar), Str ''}'']"

definition fieldLineRe :: rx where
  \<comment> \<open>\<open>/^\s*([A-Za-z_][A-Za-z0-9_]*)\s+([^` \t]+)(?:\s+`([^`]*)`)?/\<close>\<close>
  "fieldLineRe = seqs [Bol, ws, Grp 1 ident, ws1,
                       Grp 2 (Plus (Cls (\<lambda>c. c \<noteq> backtick \<and> c \<noteq> CHR '' '' \<and> c \<noteq> CHR 0x09))),
                       Opt (seqs [ws1, Str [backtick], Grp 3 (Star (notCh backtick)), Str [backtick]])]"

definition jsonTagRe :: rx where
  \<comment> \<open>\<open>/json:\"([^\"]+)\"/\<close>\<close>
  "jsonTagRe = seqs [Str (''json:'' @ [dq]), Grp 1 (Plus (notCh dq)), Str [dq]]"

definition fieldLineParts :: "string \<Rightarrow> (string \<times> string \<times> string) option" where
  \<comment> \<open>\<open>fr[1]\<close>, \<open>fr[2]\<close> and \<open>fr[3] || ''\<close> of a line the field pattern matches\<close>
  "fieldLineParts line =
     map_option (\<lambda>fr. (grp fr 1, grp fr 2, orElse (groups fr 3) [])) (exec fieldLineRe line 0)"

definition jsonTagName :: "string \<Rightarrow> string option" where
  \<comment> \<open>\<open>jm[1].split(',')[0]\<close> when the tag holds a json key\<close>
  "jsonTagName tag = map_option (\<lambda>jm. hd (splitOn CHR '','' (grp jm 1))) (exec jsonTagRe tag 0)"

definition fieldOfLine :: "string \<Rightarrow> StructField option" where
  \<comment> \<open>one turn of the loop over the lines: the descriptor pushed, or None on \<open>continue\<close>\<close>
  "fieldOfLine line =
     (case fieldLineParts line of
        None \<Rightarrow> None
      | Some (goField, goTy, tag) \<Rightarrow>
          (case jsonTagName tag of
             Some nm \<Rightarrow>
               if nm \<noteq> [] \<and> nm \<noteq> ''-''
               then Some \<lparr>name = nm, goType = goTy\<rparr>
               else Some \<lparr>name = lowerCamel goField, goType = goTy\<rparr>
           | None \<Rightarrow> Some \<lparr>name = lowerCamel goField, goType = goTy\<rparr>))"

fun uniqueByName :: "string set \<Rightarrow> StructField list \<Rightarrow> StructField list" where
  "uniqueByName seen [] = []"
| "uniqueByName seen (f # fs) =
     (if name f \<in> seen then uniqueByName seen fs
      else f # uniqueByName (insert (name f) seen) fs)"

definition structBody :: "string \<Rightarrow> string \<Rightarrow> string option" where
  \<comment> \<open>the text between the braces of the first declaration of the type, if one is found\<close>
  "structBody text typeName = map_option (\<lambda>m. grp m 1) (exec (defRe typeName) text 0)"

definition extractStructFieldsFromText :: "string \<Rightarrow> string \<Rightarrow> StructField list" where
  "extractStructFieldsFromText text typeName =
     (case structBody text typeName of
        None \<Rightarrow> []
      | Some body \<Rightarrow> uniqueByName {} (List.map_filter fieldOfLine (splitOn (CHR 0x0A) body)))"

definition findVarTypeInText :: "string \<Rightarrow> string \<Rightarrow> string option" where
  "findVarTypeInText text varName =
     (case exec (seqs [WordB, Str ''var'', ws1, Str varName, ws1, Opt (Str ''*''), Grp 1 ident, WordB]) text 0 of
        Some m \<Rightarrow> Some (grp m 1)
      | None \<Rightarrow>
     (case exec (seqs [WordB, Str varName, ws, Cls (\<lambda>c. c = CHR '':'' \<or> c = CHR ''=''), ws,
                       Opt (Str ''&''), ws, Grp 1 ident, ws, Str ''{'']) text 0 of
        Some m \<Rightarrow> Some (grp m 1)
      | None \<Rightarrow>
     (case exec (seqs [WordB, Str varName, ws, Str ''='', ws,
                       Opt (Str ''&''), ws, Grp 1 ident, ws, Str ''{'']) text 0 of
        Some m \<Rightarrow> Some (grp m 1)
      | None \<Rightarrow>
     (case exec (seqs [WordB, Str varName, ws, Str '':='', ws, Str ''new('', ws,
                       Grp 1 ident, ws, Str '')'']) text 0 of
        Some m \<Rightarrow> Some (grp m 1)
      | None \<Rightarrow> None))))"


section \<open>The scanner: request shape of a handler body\<close>

definition cPattern :: "string option \<Rightarrow> rx" where
  \<comment> \<open>\<open>ctxVar || '[a-zA-Z_][a-zA-Z0-9_]*'\<close>\<close>
  "cPattern ctxVar = (case ctxVar of None \<Rightarrow> ident | Some v \<Rightarrow> if v = [] then ident else Str v)"

definition jsonBind :: "rx \<Rightarrow> rx" where
  \<comment> \<open>\<open>${c}\.(ShouldBindJSON|BindJSON)\s*\(\<close>\<close>
  "jsonBind c = seqs [c, Str ''.'', Grp 1 (alts [Str ''ShouldBindJSON'', Str ''BindJSON'']), ws, Str ''('']"

definition formBind :: "rx \<Rightarrow> rx" where
  \<comment> \<open>\<open>${c}\.(PostForm)\s*\(\<close>\<close>
  "formBind c = seqs [c, Str ''.'', Grp 1 (Str ''PostForm''), ws, Str ''('']"

definition multipart :: "rx \<Rightarrow> rx" where
  \<comment> \<open>\<open>${c}\.(FormFile|MultipartForm)\b\<close>\<close>
  "multipart c = seqs [c, Str ''.'', Grp 1 (alts [Str ''FormFile'', Str ''MultipartForm'']), WordB]"

definition queryBind :: "rx \<Rightarrow> rx" where
  \<comment> \<open>\<open>${c}\.(ShouldBindQuery|BindQuery)\s*\(\<close>\<close>
  "queryBind c = seqs [c, Str ''.'', Grp 1 (alts [Str ''ShouldBindQuery'', Str ''BindQuery'']), ws, Str ''('']"

definition genericBind :: "rx \<Rightarrow> rx" where
  \<comment> \<open>\<open>${c}\.(ShouldBind|Bind)\s*\(\<close>\<close>
  "genericBind c = seqs [c, Str ''.'', Grp 1 (alts [Str ''ShouldBind'', Str ''Bind'']), ws, Str ''('']"

definition classifyBody :: "rx \<Rightarrow> string \<Rightarrow> BodyType" where
  \<comment> \<open>the chain of tests that sets \<open>params.bodyType\<close>\<close>
  "classifyBody c body =
     (if test (jsonBind c) body then Json
      else if test (multipart c) body then Multipart
      else if test (formBind c) body then Form
      else if test (queryBind c) body then NoBody
      else if test (genericBind c) body then NoBody
      else NoBody)"

definition anyBind :: rx where
  "anyBind = Grp 1 (alts [Str ''ShouldBindJSON'', Str ''BindJSON'', Str ''ShouldBind'', Str ''Bind''])"

definition structLit :: "rx \<Rightarrow> rx" where
  \<comment> \<open>\<open>${c}\.(ShouldBindJSON|BindJSON|ShouldBind|Bind)\s*\(\s*&\s*([A-Za-z_][A-Za-z0-9_]*)\s*\{\<close>\<close>
  "structLit c = seqs [c, Str ''.'', anyBind, ws, Str ''('', ws, Str ''&'', ws, Grp 2 ident, ws, Str ''{'']"

definition addrVar :: "rx \<Rightarrow> rx" where
  \<comment> \<open>\<open>${c}\.(ShouldBindJSON|BindJSON|ShouldBind|Bind)\s*\(\s*&\s*([a-zA-Z_][a-zA-Z0-9_]*)\<close>\<close>
  "addrVar c = seqs [c, Str ''.'', anyBind, ws, Str ''('', ws, Str ''&'', ws, Grp 2 ident]"

definition jsonBinding :: "rx \<Rightarrow> string \<Rightarrow> string \<Rightarrow> string option \<times> StructField list option" where
  \<comment> \<open>the block under \<open>if (params.bodyType === 'json')\<close>: struct name and fields\<close>
  "jsonBinding c body fullText =
     (case exec (structLit c) body 0 of
        Some tm \<Rightarrow> (Some (grp tm 2), Some (extractStructFieldsFromText fullText (grp tm 2)))
      | None \<Rightarrow>
          (case exec (addrVar c) body 0 of
             Some tm \<Rightarrow>
               (case findVarTypeInText fullText (grp tm 2) of
                  Some typeName \<Rightarrow>
                    if typeName = [] then (None, None)
                    else (Some typeName, Some (extractStructFieldsFromText fullText typeName))
                | None \<Rightarrow> (None, None))
           | None \<Rightarrow> (None, None)))"

definition accessorCall :: "rx \<Rightarrow> rx \<Rightarrow> rx" where
  \<comment> \<open>\<open>${c}\.ACCESSOR\s*\(\s*\"([^"]+)\"\<close>, the literal in the last group\<close>
  "accessorCall c acc = seqs [c, Str ''.'', acc, ws, Str ''('', ws, Str [dq]]"

definition qpRe :: "rx \<Rightarrow> rx" where
  \<comment> \<open>\<open>${c}\.(Query|DefaultQuery|QueryArray|QueryMap)\s*\(\s*\"([^"]+)\"\<close>\<close>
  "qpRe c = seqs [accessorCall c (Grp 1 (alts [Str ''Query'', Str ''DefaultQuery'', Str ''QueryArray'', Str ''QueryMap''])),
                  Grp 2 (Plus (notCh dq)), Str [dq]]"

definition ppRe :: "rx \<Rightarrow> rx" where
  \<comment> \<open>\<open>${c}\.Param\s*\(\s*\"([^"]+)\"\<close>\<close>
  "ppRe c = seqs [accessorCall c (Str ''Param''), Grp 1 (Plus (notCh dq)), Str [dq]]"

definition ghRe :: "rx \<Rightarrow> rx" where
  \<comment> \<open>\<open>${c}\.GetHeader\s*\(\s*\"([^"]+)\"\<close>\<close>
  "ghRe c = seqs [accessorCall c (Str ''GetHeader''), Grp 1 (Plus (notCh dq)), Str [dq]]"

definition rhRe :: "rx \<Rightarrow> rx" where
  \<comment> \<open>\<open>${c}\.Request\.Header\.Get\s*\(\s*\"([^"]+)\"\<close>\<close>
  "rhRe c = seqs [accessorCall c (Str ''Request.Header.Get''), Grp 1 (Plus (notCh dq)), Str [dq]]"

definition ckRe :: "rx \<Rightarrow> rx" where
  \<comment> \<open>\<open>${c}\.Cookie\s*\(\s*\"([^"]+)\"\<close>\<close>
  "ckRe c = seqs [accessorCall c (Str ''Cookie''), Grp 1 (Plus (notCh dq)), Str [dq]]"

definition setAdd :: "string list \<Rightarrow> string \<Rightarrow> string list" where
  "setAdd acc x = (if x \<in> set acc then acc else acc @ [x])"

definition arrayFromSet :: "string list \<Rightarrow> string list" where
  \<comment> \<open>\<open>Array.from(new Set(xs))\<close>: a Set keeps its elements in insertion order\<close>
  "arrayFromSet xs = foldl setAdd [] xs"

definition inferParamsFromBody :: "string \<Rightarrow> string option \<Rightarrow> string \<Rightarrow> string \<Rightarrow> HandlerParams" where
  "inferParamsFromBody body ctxVar alias fullText =
     (let c = cPattern ctxVar;
          bt = classifyBody c body;
          js = (if bt = Json then jsonBinding c body fullText else (None, None));
          qps = map (\<lambda>m. grp m 2) (execAll (qpRe c) body 0);
          pps = map (\<lambda>m. grp m 1) (execAll (ppRe c) body 0);
          ghs = map (\<lambda>m. grp m 1) (execAll (ghRe c) body 0);
          rhs = map (\<lambda>m. grp m 1) (execAll (rhRe c) body 0);
          cks = map (\<lambda>m. grp m 1) (execAll (ckRe c) body 0)
      in \<lparr>pathParams = arrayFromSet pps,
          queryParams = arrayFromSet qps,
          headers = arrayFromSet (ghs @ rhs),
          cookies = arrayFromSet cks,
          bodyType = bt,
          jsonStructName = fst js,
          jsonFields = snd js\<rparr>)"


section \<open>The scanner: handlers\<close>

function fmbLoop :: "string \<Rightarrow> nat \<Rightarrow> int \<Rightarrow> int" where
  "fmbLoop text i depth =
     (if i < length text then
        (if text ! i = CHR ''{'' then fmbLoop text (i + 1) (depth + 1)
         else if text ! i = CHR ''}'' then
           (if depth - 1 = 0 then int i else fmbLoop text (i + 1) (depth - 1))
         else fmbLoop text (i + 1) depth)
      else - 1)"
  by pat_completeness auto
termination
  by (relation "measure (\<lambda>(text, i, depth). length text - i)") auto

declare fmbLoop.simps [simp del]

definition findMatchingBrace :: "string \<Rightarrow> nat \<Rightarrow> int" where
  "findMatchingBrace text openIndex = fmbLoop text openIndex 0"

definition pattern1 :: "string \<Rightarrow> rx" where
  \<comment> \<open>\<open>func\s*(?:\([^)]*\)\s*)?([A-Za-z_][A-Za-z0-9_]*)\s*\(([^)]*${ginAlias}\.Context[^)]*)\)\s*\{\<close>\<close>
  "pattern1 alias =
     seqs [Str ''func'', ws, Opt (seqs [Str ''('', Star (notCh CHR '')''), Str '')'', ws]),
           Grp 1 ident, ws, Str ''('',
           Grp 2 (seqs [Star (notCh CHR '')''), Str alias, Str ''.Context'', Star (notCh CHR '')'')]),
           Str '')'', ws, Str ''{'']"

definition handlerFuncType :: "string \<Rightarrow> rx" where
  \<comment> \<open>\<open>(?:\(${ginAlias}\.HandlerFunc\)|${ginAlias}\.HandlerFunc)\<close>\<close>
  "handlerFuncType alias =
     Alt (seqs [Str ''('', Str alias, Str ''.HandlerFunc)''])
         (seqs [Str alias, Str ''.HandlerFunc''])"

definition pattern2 :: "string \<Rightarrow> rx" where
  \<comment> \<open>\<open>func\s+([A-Za-z_][A-Za-z0-9_]*)\s*\(\s*\)\s*(?:...)\s*\{\<close>\<close>
  "pattern2 alias =
     seqs [Str ''func'', ws1, Grp 1 ident, ws, Str ''('', ws, Str '')'', ws,
           handlerFuncType alias, ws, Str ''{'']"

definition pattern2Method :: "string \<Rightarrow> rx" where
  \<comment> \<open>\<open>func\s*\([^)]*\)\s*([A-Za-z_][A-Za-z0-9_]*)\s*\(\s*\)\s*(?:...)\s*\{\<close>\<close>
  "pattern2Method alias =
     seqs [Str ''func'', ws, Str ''('', Star (notCh CHR '')''), Str '')'', ws,
           Grp 1 ident, ws, Str ''('', ws, Str '')'', ws,
           handlerFuncType alias, ws, Str ''{'']"

definition innerCtxParam :: "string \<Rightarrow> rx" where
  \<comment> \<open>\<open>func\s*\(\s*([a-zA-Z_][a-zA-Z0-9_]*)\s*\*\s*${ginAlias}\.Context\s*\)\<close>\<close>
  "innerCtxParam alias =
     seqs [Str ''func'', ws, Str ''('', ws, Grp 1 ident, ws, Str ''*'', ws,
           Str alias, Str ''.Context'', ws, Str '')'']"

definition bodyText1 :: "string \<Rightarrow> nat \<Rightarrow> string" where
  \<comment> \<open>pattern 1: \<open>bodyEnd > bodyStart ? text.slice(bodyStart, bodyEnd + 1) : ''\<close>\<close>
  "bodyText1 text bodyStart =
     (let bodyEnd = findMatchingBrace text bodyStart
      in if bodyEnd > int bodyStart then slice text (int bodyStart) (bodyEnd + 1) else [])"

definition inner2 :: "string \<Rightarrow> nat \<Rightarrow> string" where
  \<comment> \<open>patterns 2 and 2b: \<open>text.slice(startIndex, bodyEnd + 1)\<close>\<close>
  "inner2 text startIndex =
     (let bodyEnd = findMatchingBrace text startIndex
      in slice text (int startIndex) (bodyEnd + 1))"

definition handler1 :: "string \<Rightarrow> string \<Rightarrow> string \<Rightarrow> rmatch \<Rightarrow> HandlerFunction" where
  "handler1 text alias file m =
     (let nm = grp m 1;
          paramsSig = grp m 2;
          startIndex = lastIndex m - 1;
          ctx = extractContextParamName paramsSig alias
      in \<lparr>fnName = nm, fnFilePath = file,
          nameRange = (index m, index m + length nm),
          contextParamName = ctx, ginAlias = alias,
          params = inferParamsFromBody (bodyText1 text startIndex) ctx alias text\<rparr>)"

definition handler2 :: "string \<Rightarrow> string \<Rightarrow> string \<Rightarrow> rmatch \<Rightarrow> HandlerFunction" where
  "handler2 text alias file m =
     (let nm = grp m 1;
          startIndex = lastIndex m - 1;
          inner = inner2 text startIndex;
          ctxVar = (case exec (innerCtxParam alias) inner 0 of Some im \<Rightarrow> groups im 1 | None \<Rightarrow> None)
      in \<lparr>fnName = nm, fnFilePath = file,
          nameRange = (index m, index m + length nm),
          contextParamName = ctxVar, ginAlias = alias,
          params = inferParamsFromBody inner ctxVar alias text\<rparr>)"

definition findHandlersInText :: "string \<Rightarrow> string \<Rightarrow> string \<Rightarrow> HandlerFunction list" where
  "findHandlersInText text file alias =
     map (handler1 text alias file) (execAll (pattern1 alias) text 0)
     @ map (handler2 text alias file) (execAll (pattern2 alias) text 0)
     @ map (handler2 text alias file) (execAll (pattern2Method alias) text 0)"


section \<open>The scanner: group prefixes and routes\<close>

definition joinPaths :: "string \<Rightarrow> string \<Rightarrow> string" where
  "joinPaths a b =
     (let left = (if endsWith a ''/'' then slice a 0 (- 1) else a);
          right = (if startsWith b ''/'' then b else ''/'' @ b)
      in left @ right)"

definition lastSegment :: "string \<Rightarrow> string" where
  "lastSegment q = last (splitOn CHR ''.'' q)"

definition rootParam :: "string \<Rightarrow> rx" where
  \<comment> \<open>\<open>\(\s*([a-zA-Z_][a-zA-Z0-9_]*)\s*\*\s*${ginAlias}\.Engine\<close>\<close>
  "rootParam alias = seqs [Str ''('', ws, Grp 1 ident, ws, Str ''*'', ws, Str alias, Str ''.Engine'']"

definition rootAssign :: "string \<Rightarrow> rx" where
  \<comment> \<open>\<open>\b([a-zA-Z_][a-zA-Z0-9_]*)\s*:=\s*${ginAlias}\.(?:Default|New)\s*\(\<close>\<close>
  "rootAssign alias = seqs [WordB, Grp 1 ident, ws, Str '':='', ws, Str alias, Str ''.'',
                            alts [Str ''Default'', Str ''New''], ws, Str ''('']"

definition groupRegex :: rx where
  \<comment> \<open>\<open>\b([a-zA-Z_][a-zA-Z0-9_]*)\s*[:=]=\s*([a-zA-Z_][a-zA-Z0-9_]*)\.Group\s*\(\s*\"([^\"]*)\"\<close>\<close>
  "groupRegex = seqs [WordB, Grp 1 ident, ws, Cls (\<lambda>c. c = CHR '':'' \<or> c = CHR ''=''), Str ''='', ws,
                      Grp 2 ident, Str ''.Group'', ws, Str ''('', ws,
                      Str [dq], Grp 3 (Star (notCh dq)), Str [dq]]"

type_synonym prefixMap = "string \<rightharpoonup> string"

definition groupDecls :: "string \<Rightarrow> (string \<times> string \<times> string) list" where
  \<comment> \<open>the matches of \<open>groupRegex\<close> in order, each as \<open>(child, base, rel)\<close>\<close>
  "groupDecls text = map (\<lambda>gm. (grp gm 1, grp gm 2, grp gm 3)) (execAll groupRegex text 0)"

definition groupStep :: "prefixMap \<times> bool \<Rightarrow> string \<times> string \<times> string \<Rightarrow> prefixMap \<times> bool" where
  \<comment> \<open>the body of the inner loop, on the map and the flag \<open>updated\<close>\<close>
  "groupStep st d =
     (case d of (child, base, rel) \<Rightarrow>
        (let mp = fst st;
             basePrefix = (case mp base of Some p \<Rightarrow> p | None \<Rightarrow> []);
             full = joinPaths basePrefix rel
         in if mp child \<noteq> Some full then (mp(child \<mapsto> full), True) else st))"

partial_function (option) groupLoop :: "string \<Rightarrow> prefixMap \<Rightarrow> prefixMap option" where
  "groupLoop text mp =
     (case foldl groupStep (mp, False) (groupDecls text) of
        (mp', updated) \<Rightarrow> if updated then groupLoop text mp' else Some mp')"

declare groupLoop.simps [code]

text \<open>
  \<open>groupLoop\<close> is the loop \<open>while (updated)\<close>; each turn clears the flag and runs the
  pattern over the whole text again. The value None stands for a loop that does not
  stop.
\<close>

definition rootMap :: "string \<Rightarrow> string \<Rightarrow> prefixMap" where
  \<comment> \<open>the map before the loop: the root router variables, each with the empty prefix\<close>
  "rootMap text alias =
     foldl (\<lambda>mp m. mp(grp m 1 \<mapsto> []))
       (case exec (rootParam alias) text 0 of Some pm \<Rightarrow> [grp pm 1 \<mapsto> []] | None \<Rightarrow> Map.empty)
       (execAll (rootAssign alias) text 0)"

definition buildGroupPrefixMap :: "string \<Rightarrow> string \<Rightarrow> prefixMap option" where
  "buildGroupPrefixMap text alias = groupLoop text (rootMap text alias)"

definition routeRegex :: rx where
  \<comment> \<open>\<open>\b(ID)\.(GET|POST|PUT|DELETE|PATCH|OPTIONS|HEAD)\s*\(\s*\"([^\"]*)\"\s*,\s*(ID(?:\.ID)*)(?:\s*\(\s*\))?\<close>\<close>
  "routeRegex = seqs [WordB, Grp 1 ident, Str ''.'',
                      Grp 2 (alts [Str ''GET'', Str ''POST'', Str ''PUT'', Str ''DELETE'', Str ''PATCH'',
                                   Str ''OPTIONS'', Str ''HEAD'']),
                      ws, Str ''('', ws, Str [dq], Grp 3 (Star (notCh dq)), Str [dq], ws, Str '','', ws,
                      Grp 4 qualifiedIdent, emptyCall]"

definition handleRegex :: rx where
  \<comment> \<open>\<open>\b(ID)\.Handle\s*\(\s*\"([A-Z]+)\"\s*,\s*\"([^\"]*)\"\s*,\s*(ID(?:\.ID)*)(?:\s*\(\s*\))?\<close>\<close>
  "handleRegex = seqs [WordB, Grp 1 ident, Str ''.Handle'', ws, Str ''('', ws,
                       Str [dq], Grp 2 (Plus (Cls isUpper)), Str [dq], ws, Str '','', ws,
                       Str [dq], Grp 3 (Star (notCh dq)), Str [dq], ws, Str '','', ws,
                       Grp 4 qualifiedIdent, emptyCall]"

definition anyRegex :: rx where
  \<comment> \<open>\<open>\b(ID)\.Any\s*\(\s*\"([^\"]*)\"\s*,\s*(ID(?:\.ID)*)(?:\s*\(\s*\))?\<close>\<close>
  "anyRegex = seqs [WordB, Grp 1 ident, Str ''.Any'', ws, Str ''('', ws,
                    Str [dq], Grp 2 (Star (notCh dq)), Str [dq], ws, Str '','', ws,
                    Grp 3 qualifiedIdent, emptyCall]"

definition mkRoute :: "prefixMap \<Rightarrow> string \<Rightarrow> rmatch \<Rightarrow> string \<Rightarrow> string \<Rightarrow> string \<Rightarrow> string \<Rightarrow> RouteRegistration" where
  "mkRoute groupPrefixes file m recv meth relPath hName =
     (let prefix = orElse (groupPrefixes recv) [];
          p = joinPaths prefix relPath
      in \<lparr>httpMethod = meth, path = p, handlerName = hName, filePath = file,
          span = (index m, lastIndex m)\<rparr>)"

definition routeOfMatch :: "prefixMap \<Rightarrow> string set \<Rightarrow> string \<Rightarrow> rmatch \<Rightarrow> RouteRegistration option" where
  \<comment> \<open>one turn of the loop over \<open>routeRegex\<close>; None is \<open>continue\<close>\<close>
  "routeOfMatch groupPrefixes handlerNames file m =
     (let hName = lastSegment (grp m 4)
      in if hName \<notin> handlerNames then None
         else Some (mkRoute groupPrefixes file m (grp m 1) (grp m 2) (grp m 3) hName))"

definition handleOfMatch :: "prefixMap \<Rightarrow> string set \<Rightarrow> string \<Rightarrow> rmatch \<Rightarrow> RouteRegistration option" where
  \<comment> \<open>one turn of the loop over \<open>handleRegex\<close>\<close>
  "handleOfMatch groupPrefixes handlerNames file m =
     (let meth = grp m 2;
          hName = lastSegment (grp m 4)
      in if meth \<notin> set HTTP_METHODS \<or> hName \<notin> handlerNames then None
         else Some (mkRoute groupPrefixes file m (grp m 1) meth (grp m 3) hName))"

definition anyOfMatch :: "prefixMap \<Rightarrow> string set \<Rightarrow> string \<Rightarrow> rmatch \<Rightarrow> RouteRegistration option" where
  \<comment> \<open>one turn of the loop over \<open>anyRegex\<close>\<close>
  "anyOfMatch groupPrefixes handlerNames file m =
     (let hName = lastSegment (grp m 3)
      in if hName \<notin> handlerNames then None
         else Some (mkRoute groupPrefixes file m (grp m 1) METHOD_ANY (grp m 2) hName))"

definition findRoutesInTextByNames :: "string \<Rightarrow> string \<Rightarrow> string set \<Rightarrow> RouteRegistration list option" where
  "findRoutesInTextByNames text file handlerNames =
     (case buildGroupPrefixMap text (detectGinAliasFromImports text) of
        None \<Rightarrow> None
      | Some groupPrefixes \<Rightarrow>
          Some (List.map_filter (routeOfMatch groupPrefixes handlerNames file) (execAll routeRegex text 0)
                @ List.map_filter (handleOfMatch groupPrefixes handlerNames file) (execAll handleRegex text 0)
                @ List.map_filter (anyOfMatch groupPrefixes handlerNames file) (execAll anyRegex text 0)))"


section \<open>The scanner: base address\<close>

definition ipPortRe :: rx where
  \<comment> \<open>\<open>/^\d+\.\d+\.\d+\.\d+:\d+$/\<close>\<close>
  "ipPortRe = seqs [Bol, Plus (Cls isDigit), Str ''.'', Plus (Cls isDigit), Str ''.'',
                    Plus (Cls isDigit), Str ''.'', Plus (Cls isDigit), Str '':'', Plus (Cls isDigit), Eol]"

definition hostPortRe :: rx where
  \<comment> \<open>\<open>/^[A-Za-z0-9_.-]+:\d+$/\<close>\<close>
  "hostPortRe = seqs [Bol, Plus (Cls (\<lambda>c. isWordChar c \<or> c = CHR ''.'' \<or> c = CHR ''-'')),
                      Str '':'', Plus (Cls isDigit), Eol]"

definition normalizeAddr :: "string \<Rightarrow> string option" where
  "normalizeAddr addr =
     (let a = trim addr
      in if a = [] then None
         else if startsWith a '':'' then Some (''localhost'' @ a)
         else if test ipPortRe a then Some a
         else if test hostPortRe a then Some a
         else None)"

definition runRe :: rx where
  \<comment> \<open>\<open>/\.[Rr]un(?:TLS)?\s*\(\s*"([^"]*)"/g\<close>\<close>
  "runRe = seqs [Str ''.'', Cls (\<lambda>c. c = CHR ''R'' \<or> c = CHR ''r''), Str ''un'', Opt (Str ''TLS''),
                 ws, Str ''('', ws, Str [dq], Grp 1 (Star (notCh dq)), Str [dq]]"

definition runTlsRe :: rx where
  \<comment> \<open>\<open>/\.RunTLS\s*\(/\<close>\<close>
  "runTlsRe = seqs [Str ''.RunTLS'', ws, Str ''('']"

definition listenRe :: rx where
  \<comment> \<open>\<open>/http\.ListenAndServe\s*\(\s*"([^"]*)"/g\<close>\<close>
  "listenRe = seqs [Str ''http.ListenAndServe'', ws, Str ''('', ws, Str [dq], Grp 1 (Star (notCh dq)), Str [dq]]"

definition runNoArgsRe :: rx where
  \<comment> \<open>\<open>/\.[Rr]un\s*\(\s*\)/\<close>\<close>
  "runNoArgsRe = seqs [Str ''.'', Cls (\<lambda>c. c = CHR ''R'' \<or> c = CHR ''r''), Str ''un'', ws, Str ''('', ws, Str '')'']"

definition isTLSAt :: "string \<Rightarrow> rmatch \<Rightarrow> bool" where
  \<comment> \<open>\<open>/\.RunTLS\s*\(/.test(text.slice(m.index - 10, m.index + 10))\<close>\<close>
  "isTLSAt text m = test runTlsRe (slice text (int (index m) - 10) (int (index m) + 10))"

fun firstRun :: "string \<Rightarrow> rmatch list \<Rightarrow> (bool \<times> string) option" where
  \<comment> \<open>the loop over \<open>runRe\<close>, left by \<open>break\<close> at the first address that normalises\<close>
  "firstRun text [] = None"
| "firstRun text (m # ms) =
     (let isTLS = isTLSAt text m
      in case normalizeAddr (grp m 1) of
           Some hp \<Rightarrow> if hp = [] then firstRun text ms else Some (isTLS, hp)
         | None \<Rightarrow> firstRun text ms)"

fun firstListen :: "rmatch list \<Rightarrow> string option" where
  "firstListen [] = None"
| "firstListen (m # ms) =
     (case normalizeAddr (grp m 1) of
        Some hp \<Rightarrow> if hp = [] then firstListen ms else Some hp
      | None \<Rightarrow> firstListen ms)"

fun inferFromFiles :: "string list \<Rightarrow> (bool \<times> string) option" where
  \<comment> \<open>the first loop over the files: the value of \<open>inferred\<close> when it ends\<close>
  "inferFromFiles [] = None"
| "inferFromFiles (text # rest) =
     (case firstRun text (execAll runRe text 0) of
        Some r \<Rightarrow> Some r
      | None \<Rightarrow>
          (case firstListen (execAll listenRe text 0) of
             Some hp \<Rightarrow> Some (False, hp)
           | None \<Rightarrow> inferFromFiles rest))"

definition detectBaseUrlFromWorkspace :: "string list \<Rightarrow> string option" where
  \<comment> \<open>the argument is the text of the workspace's Go files, in the order they are found\<close>
  "detectBaseUrlFromWorkspace files =
     (case inferFromFiles files of
        Some (tls, hp) \<Rightarrow> Some ((if tls then ''https'' else ''http'') @ ''://'' @ hp)
      | None \<Rightarrow>
          if list_ex (test runNoArgsRe) files then Some ''http://localhost:8080'' else None)"


section \<open>The request synthesiser\<close>

record CurlGenerationOptions =
  baseUrl :: string
  defaultHeaders :: "(string \<times> string) list"
  useHttpieStyle :: bool

text \<open>
  An object used as a dictionary (the header record, the sample body) is an association
  list of its own properties in insertion order, one entry per key; \<open>assocSet\<close> is the
  assignment \<open>obj[k] = v\<close> of an own property. Three points of the language are written
  out. A key that is an array index (the decimal numeral, without leading zeros, of a
  number below \<open>2^32 - 1\<close>) is enumerated before every other key, in ascending numeric
  order: \<open>ownEntries\<close> is the order of \<open>Object.entries\<close> and of \<open>JSON.stringify\<close>. Reading
  \<open>obj[k]\<close> on a key that the object does not own finds the members of
  \<open>Object.prototype\<close>: \<open>objectPrototypeKeys\<close>. Assigning to the key \<open>__proto__\<close> creates no own
  property.
\<close>

fun assocSet :: "(string \<times> 'v) list \<Rightarrow> string \<Rightarrow> 'v \<Rightarrow> (string \<times> 'v) list" where
  "assocSet [] k v = [(k, v)]"
| "assocSet ((k', v') # rest) k v =
     (if k' = k then (k, v) # rest else (k', v') # assocSet rest k v)"

definition decimal :: "string \<Rightarrow> nat" where
  "decimal s = foldl (\<lambda>n c. 10 * n + (of_char c - 48)) 0 s"

definition arrayIndex :: "string \<Rightarrow> nat option" where
  "arrayIndex k =
     (if k \<noteq> [] \<and> list_all isDigit k \<and> (k = ''0'' \<or> hd k \<noteq> CHR ''0'') \<and> length k \<le> 10
         \<and> decimal k < 4294967295
      then Some (decimal k) else None)"

definition ownEntries :: "(string \<times> 'v) list \<Rightarrow> (string \<times> 'v) list" where
  "ownEntries kvs =
     sort_key (\<lambda>kv. case arrayIndex (fst kv) of Some n \<Rightarrow> n | None \<Rightarrow> 0)
       (filter (\<lambda>kv. arrayIndex (fst kv) \<noteq> None) kvs)
     @ filter (\<lambda>kv. arrayIndex (fst kv) = None) kvs"

definition objectPrototypeKeys :: "string list" where
  "objectPrototypeKeys =
     [''constructor'', ''hasOwnProperty'', ''isPrototypeOf'', ''propertyIsEnumerable'',
      ''toLocaleString'', ''toString'', ''valueOf'', ''__proto__'',
      ''__defineGetter__'', ''__defineSetter__'', ''__lookupGetter__'', ''__lookupSetter__'']"

datatype jsval =
    JString string
  | JNumber int
  | JBool bool
  | JArray "jsval list"
  | JObject "(string \<times> jsval) list"

definition sq :: char where
  "sq = CHR 0x27"

fun replaceFrom :: "string \<Rightarrow> string \<Rightarrow> nat \<Rightarrow> rmatch list \<Rightarrow> string" where
  "replaceFrom s repl pos [] = drop pos s"
| "replaceFrom s repl pos (m # ms) =
     take (index m - pos) (drop pos s) @ repl @ replaceFrom s repl (lastIndex m) ms"

definition replaceAll :: "rx \<Rightarrow> string \<Rightarrow> string \<Rightarrow> string" where
  \<comment> \<open>\<open>s.replace(re, repl)\<close> for a global pattern and a replacement without \<open>$\<close>\<close>
  "replaceAll r s repl = replaceFrom s repl 0 (execAll r s 0)"

definition replaceFirst :: "rx \<Rightarrow> string \<Rightarrow> string \<Rightarrow> string" where
  \<comment> \<open>\<open>s.replace(re, repl)\<close> for a pattern without the flag \<open>g\<close>\<close>
  "replaceFirst r s repl =
     (case exec r s 0 of None \<Rightarrow> s | Some m \<Rightarrow> take (index m) s @ repl @ drop (lastIndex m) s)"

definition normalizePlaceholder :: "string \<Rightarrow> string" where
  \<comment> \<open>\<open>name.replace(/[^A-Za-z0-9_]+/g, '_')\<close>\<close>
  "normalizePlaceholder nm = replaceAll (Plus (Cls (\<lambda>c. \<not> isWordChar c))) nm ''_''"

definition shellQuote :: "string \<Rightarrow> string" where
  \<comment> \<open>the replacement is the template literal \<open>`'\''`\<close>, in which \<open>\'\<close> is a quote: three quotes\<close>
  "shellQuote s =
     (if s = [] then [sq, sq]
      else [sq] @ replaceAll (Str [sq]) s [sq, sq, sq] @ [sq])"

definition mapTypeRe :: rx where
  \<comment> \<open>\<open>/^map\[.*\]/\<close>\<close>
  "mapTypeRe = seqs [Bol, Str ''map['', Star dot, Str '']'']"

definition structNameRe :: rx where
  \<comment> \<open>\<open>/^[A-Z][A-Za-z0-9_]*$/\<close>\<close>
  "structNameRe = seqs [Bol, Cls isUpper, Star (Cls isWordChar), Eol]"

definition placeholder :: "string \<Rightarrow> string" where
  \<comment> \<open>\<open>`<${normalizePlaceholder(name)}>`\<close>\<close>
  "placeholder nm = ''<'' @ normalizePlaceholder nm @ ''>''"

text \<open>
  \<open>sampleValueForGoType\<close> is defined as the source writes it, with no assumption that the
  recursion ends: None is a call that does not return. The first argument stands for
  the text of \<open>new Date().toISOString()\<close>, which the model cannot compute. (The floating
  sample \<open>0.0\<close> is the number 0, and is printed as \<open>0\<close>.)
\<close>

definition leafSample :: "string \<Rightarrow> string \<Rightarrow> string \<Rightarrow> jsval" where
  \<comment> \<open>the map test and the \<open>switch\<close>, on the trimmed type: the branches without a call\<close>
  "leafSample now base fieldName =
     (if test mapTypeRe base then
        JObject [(''key'', JString ''<key>''), (''value'', JString ''<value>'')]
      else if base = ''string'' then JString (placeholder fieldName)
      else if base \<in> set [''int'', ''int8'', ''int16'', ''int32'', ''int64'',
                           ''uint'', ''uint8'', ''uint16'', ''uint32'', ''uint64'', ''uintptr'']
        then JNumber 0
      else if base = ''float32'' \<or> base = ''float64'' then JNumber 0
      else if base = ''bool'' then JBool False
      else if base = ''time.Time'' then JString now
      else if base = ''json.RawMessage'' then JObject []
      else if test structNameRe base then JObject [(fieldName, JString (placeholder fieldName))]
      else JString (placeholder fieldName))"

partial_function (option) sampleValueForGoType :: "string \<Rightarrow> string \<Rightarrow> string \<Rightarrow> jsval option" where
  "sampleValueForGoType now goTy fieldName =
     (let base = trim goTy
      in if startsWith base ''*'' then sampleValueForGoType now (drop 1 base) fieldName
         else if startsWith base ''[]'' then
           Option.bind (sampleValueForGoType now (drop 2 base) fieldName) (\<lambda>v. Some (JArray [v]))
         else Some (leafSample now base fieldName))"

declare sampleValueForGoType.simps [code]

fun hexDigit :: "nat \<Rightarrow> char" where
  "hexDigit n = (''0123456789ABCDEF'' ! (n mod 16))"

definition hex2 :: "nat \<Rightarrow> string" where
  "hex2 n = [hexDigit (n div 16), hexDigit n]"

definition uriUnreserved :: "char \<Rightarrow> bool" where
  "uriUnreserved c = (isUpper c \<or> isLower c \<or> isDigit c \<or> c \<in> set ''-_.!~*'' \<or> c = sq \<or> c = CHR ''('' \<or> c = CHR '')'')"

definition encodeURIComponent :: "string \<Rightarrow> string" where
  \<comment> \<open>a code unit from 128 to 255 is percent-encoded as its two UTF-8 bytes\<close>
  "encodeURIComponent s =
     concat (map (\<lambda>c. let n = (of_char c :: nat)
                       in if uriUnreserved c then [c]
                          else if n < 128 then ''%'' @ hex2 n
                          else ''%'' @ hex2 (192 + n div 64) @ ''%'' @ hex2 (128 + n mod 64)) s)"

function digitsOf :: "nat \<Rightarrow> string" where
  "digitsOf n = (if n < 10 then [hexDigit n] else digitsOf (n div 10) @ [hexDigit (n mod 10)])"
  by pat_completeness auto
termination
  by (relation "measure id") auto

declare digitsOf.simps [simp del]

definition jsonQuote :: "string \<Rightarrow> string" where
  \<comment> \<open>\<open>JSON.stringify\<close> of a string\<close>
  "jsonQuote s =
     [dq] @ concat (map (\<lambda>c. let n = (of_char c :: nat)
                               in if c = dq then [CHR 0x5C, dq]
                                  else if c = CHR 0x5C then [CHR 0x5C, CHR 0x5C]
                                  else if n = 8 then [CHR 0x5C, CHR ''b'']
                                  else if n = 9 then [CHR 0x5C, CHR ''t'']
                                  else if n = 10 then [CHR 0x5C, CHR ''n'']
                                  else if n = 12 then [CHR 0x5C, CHR ''f'']
                                  else if n = 13 then [CHR 0x5C, CHR ''r'']
                                  else if n < 32 then [CHR 0x5C, CHR ''u'', CHR ''0'', CHR ''0''] @ map toLowerChar (hex2 n)
                                  else [c]) s) @ [dq]"

fun stringify :: "nat \<Rightarrow> jsval \<Rightarrow> string" where
  \<comment> \<open>\<open>JSON.stringify(v, null, 2)\<close> at the given indentation\<close>
  "stringify ind (JString s) = jsonQuote s"
| "stringify ind (JNumber n) = (if n < 0 then ''-'' @ digitsOf (nat (- n)) else digitsOf (nat n))"
| "stringify ind (JBool b) = (if b then ''true'' else ''false'')"
| "stringify ind (JArray vs) =
     (if vs = [] then ''[]''
      else ''['' @ [CHR 0x0A]
           @ joinWith ('','' @ [CHR 0x0A]) (map (\<lambda>v. replicate (ind + 2) CHR '' '' @ stringify (ind + 2) v) vs)
           @ [CHR 0x0A] @ replicate ind CHR '' '' @ '']'')"
| "stringify ind (JObject kvs) =
     (if kvs = [] then ''{}''
      else ''{'' @ [CHR 0x0A]
           @ joinWith ('','' @ [CHR 0x0A])
               (map (\<lambda>kv. replicate (ind + 2) CHR '' '' @ jsonQuote (fst kv) @ '': '' @ stringify (ind + 2) (snd kv)) kvs)
           @ [CHR 0x0A] @ replicate ind CHR '' '' @ ''}'')"

fun sampleObject :: "string \<Rightarrow> StructField list \<Rightarrow> (string \<times> jsval) list \<Rightarrow> (string \<times> jsval) list option" where
  \<comment> \<open>the loop \<open>obj[f.name] = sampleValueForGoType(f.goType, f.name)\<close>\<close>
  "sampleObject now [] obj = Some obj"
| "sampleObject now (f # fs) obj =
     (case sampleValueForGoType now (goType f) (name f) of
        None \<Rightarrow> None
      | Some v \<Rightarrow> sampleObject now fs (if name f = ''__proto__'' then obj else assocSet obj (name f) v))"

subsection \<open>The pattern built from a path parameter\<close>

text \<open>
  The synthesiser replaces a path parameter with \<open>urlPath.replace(new RegExp(src, 'g'), repl)\<close>,
  where \<open>src\<close> and \<open>repl\<close> hold the parameter's name as it stands in the handler: any text
  between double quotes. The name is therefore read as a pattern, and the synthesiser
  depends on how the language compiles and runs an arbitrary pattern. This subsection
  is that part of the language: the syntax of patterns without the flag \<open>u\<close> (with the
  compatibility syntax that browsers and Node accept: a lone \<open>]\<close>, \<open>{\<close> or \<open>}\<close> stands for
  itself, an escape that is no back reference is an octal or identity escape, a
  lookahead may be quantified), the backtracking matcher with captures, back references
  and lookbehind, and the expansion of \<open>$\<close> in the replacement. A call either returns a
  string or throws \<open>SyntaxError\<close>.

  Three things are left out and give the value \<open>NotModelled\<close>, because their reading
  depends on the edition of the language or on the Unicode tables: inline modifiers
  such as \<open>(?i:...)\<close>, a group name used twice, and a group name with an escape or a
  character above 127. The limits an engine puts on the size of a pattern are not
  modelled either.
\<close>

datatype jsError = SyntaxError

datatype 'a outcome = Returned 'a | Thrown jsError | NotModelled

datatype node =
    NEmpty
  | NSet "char \<Rightarrow> bool"
  | NSeq node node
  | NAlt node node
  | NGroup nat node
  | NRepeat node nat "nat option" bool
  | NBol
  | NEol
  | NWordB bool
  | NLook bool bool node
  | NBackRef nat


text \<open>
  \<open>run\<close> is the matcher: all the ways the node matches from a position, in the order a
  backtracking engine tries them, each as the position reached and the captures. The
  flag \<open>fw\<close> is the direction, forwards except inside a lookbehind. An iteration of a
  quantified term starts with the captures of the term cleared, and once the minimum
  is reached an iteration that does not move is rejected.
\<close>

fun groupsOf :: "node \<Rightarrow> nat list" where
  "groupsOf (NSeq a b) = groupsOf a @ groupsOf b"
| "groupsOf (NAlt a b) = groupsOf a @ groupsOf b"
| "groupsOf (NGroup n r) = n # groupsOf r"
| "groupsOf (NRepeat r mn mx g) = groupsOf r"
| "groupsOf (NLook a p r) = groupsOf r"
| "groupsOf _ = []"

fun nsize :: "node \<Rightarrow> nat" where
  "nsize (NSeq a b) = Suc (nsize a + nsize b)"
| "nsize (NAlt a b) = Suc (nsize a + nsize b)"
| "nsize (NGroup n r) = Suc (nsize r)"
| "nsize (NRepeat r mn mx g) = Suc (nsize r)"
| "nsize (NLook a p r) = Suc (nsize r)"
| "nsize _ = 0"

fun repMin :: "node \<Rightarrow> nat" where
  "repMin (NRepeat r mn mx g) = mn"
| "repMin _ = 0"

type_synonym mstate2 = "nat \<times> caps"

definition clearCaps :: "nat list \<Rightarrow> caps \<Rightarrow> caps" where
  "clearCaps gs c = (\<lambda>n. if n \<in> set gs then None else c n)"

definition advanced :: "bool \<Rightarrow> string \<Rightarrow> nat \<Rightarrow> nat \<Rightarrow> bool" where
  "advanced fw s i j = (if fw then i < j \<and> j \<le> length s else j < i)"

function run :: "node \<Rightarrow> bool \<Rightarrow> string \<Rightarrow> mstate2 \<Rightarrow> mstate2 list" where
  "run NEmpty fw s (i, c) = [(i, c)]"
| "run (NSet P) fw s (i, c) =
     (if fw then (if i < length s \<and> P (s ! i) then [(Suc i, c)] else [])
      else (if 0 < i \<and> i \<le> length s \<and> P (s ! (i - 1)) then [(i - 1, c)] else []))"
| "run (NSeq a b) fw s (i, c) =
     (if fw then concat (map (\<lambda>y. run b fw s y) (run a fw s (i, c)))
      else concat (map (\<lambda>y. run a fw s y) (run b fw s (i, c))))"
| "run (NAlt a b) fw s (i, c) = run a fw s (i, c) @ run b fw s (i, c)"
| "run (NGroup n r) fw s (i, c) =
     map (\<lambda>y. (fst y, (snd y)(n \<mapsto> (if fw then take (fst y - i) (drop i s)
                                        else take (i - fst y) (drop (fst y) s)))))
         (run r fw s (i, c))"
| "run (NRepeat r mn mx g) fw s (i, c) =
     (if mx = Some 0 then [(i, c)]
      else if 0 < mn then
        concat (map (\<lambda>y. run (NRepeat r (mn - 1) (map_option (\<lambda>m. m - 1) mx) g) fw s y)
                    (run r fw s (i, clearCaps (groupsOf r) c)))
      else if g then
        concat (map (\<lambda>y. run (NRepeat r 0 (map_option (\<lambda>m. m - 1) mx) g) fw s y)
                    (filter (\<lambda>y. advanced fw s i (fst y)) (run r fw s (i, clearCaps (groupsOf r) c))))
        @ [(i, c)]
      else
        (i, c) #
        concat (map (\<lambda>y. run (NRepeat r 0 (map_option (\<lambda>m. m - 1) mx) g) fw s y)
                    (filter (\<lambda>y. advanced fw s i (fst y)) (run r fw s (i, clearCaps (groupsOf r) c)))))"
| "run NBol fw s (i, c) = (if i = 0 then [(i, c)] else [])"
| "run NEol fw s (i, c) = (if i = length s then [(i, c)] else [])"
| "run (NWordB b) fw s (i, c) =
     (let a = (0 < i \<and> i \<le> length s \<and> isWordChar (s ! (i - 1)));
          z = (i < length s \<and> isWordChar (s ! i))
      in if (a \<noteq> z) = b then [(i, c)] else [])"
| "run (NLook ahead pos r) fw s (i, c) =
     (case run r ahead s (i, c) of
        [] \<Rightarrow> if pos then [] else [(i, c)]
      | y # _ \<Rightarrow> if pos then [(i, snd y)] else [])"
| "run (NBackRef n) fw s (i, c) =
     (case c n of
        None \<Rightarrow> [(i, c)]
      | Some v \<Rightarrow>
          if fw then (if take (length v) (drop i s) = v then [(i + length v, c)] else [])
          else (if length v \<le> i \<and> take (length v) (drop (i - length v) s) = v
                then [(i - length v, c)] else []))"
  by pat_completeness auto
termination
  by (relation "inv_image (less_than <*lex*> less_than <*lex*> less_than)
                  (\<lambda>(r, fw, s, x). (nsize r, repMin r, if fw then length s - fst x else fst x))")
     (auto simp: advanced_def)


text \<open>
  \<open>regExpExec\<close> is one call of \<open>exec\<close> with the flag \<open>g\<close>, \<open>allMatches\<close> the matches a global
  \<open>replace\<close> collects (after an empty match the search resumes one character further),
  \<open>getSubstitution\<close> the expansion of the replacement text for one match, and \<open>assemble\<close>
  the resulting string.
\<close>

type_synonym found = "nat \<times> nat \<times> caps"

fun firstMatch :: "node \<Rightarrow> string \<Rightarrow> nat list \<Rightarrow> found option" where
  "firstMatch r s [] = None"
| "firstMatch r s (i # is) =
     (case run r True s (i, Map.empty) of
        y # _ \<Rightarrow> Some (i, fst y, snd y)
      | [] \<Rightarrow> firstMatch r s is)"

definition regExpExec :: "node \<Rightarrow> string \<Rightarrow> nat \<Rightarrow> found option" where
  \<comment> \<open>the match at or after \<open>lastIndex\<close>: start, end and captures\<close>
  "regExpExec r s lastIdx =
     (if lastIdx \<le> length s then firstMatch r s [lastIdx ..< Suc (length s)] else None)"

function allMatches :: "node \<Rightarrow> string \<Rightarrow> nat \<Rightarrow> found list" where
  "allMatches r s lastIdx =
     (case regExpExec r s lastIdx of
        None \<Rightarrow> []
      | Some m \<Rightarrow>
          (let next = (if fst (snd m) = fst m then Suc (fst (snd m)) else fst (snd m))
           in m # (if lastIdx < next then allMatches r s next else [])))"
  by pat_completeness auto
termination
  by (relation "measure (\<lambda>(r, s, lastIdx). Suc (length s) - lastIdx)")
     (auto simp: regExpExec_def split: if_splits)

declare allMatches.simps [simp del]

definition digitVal :: "char \<Rightarrow> nat" where
  "digitVal c = of_char c - 48"

function getSubstitution ::
  "string \<Rightarrow> found \<Rightarrow> nat \<Rightarrow> (string \<times> nat) list \<Rightarrow> string \<Rightarrow> string" where
  "getSubstitution s m ncap names [] = []"
| "getSubstitution s m ncap names (x # xs) =
     (if x \<noteq> CHR ''$'' then x # getSubstitution s m ncap names xs
      else case xs of
        [] \<Rightarrow> [x]
      | y # ys \<Rightarrow>
          if y = CHR ''$'' then CHR ''$'' # getSubstitution s m ncap names ys
          else if y = CHR ''&'' then
            take (fst (snd m) - fst m) (drop (fst m) s) @ getSubstitution s m ncap names ys
          else if y = backtick then take (fst m) s @ getSubstitution s m ncap names ys
          else if y = sq then drop (fst (snd m)) s @ getSubstitution s m ncap names ys
          else if isDigit y then
            (let d1 = digitVal y;
                 nn = (case ys of [] \<Rightarrow> 0 | z # _ \<Rightarrow> if isDigit z then 10 * d1 + digitVal z else 0)
             in if 1 \<le> nn \<and> nn \<le> ncap then
                  (case snd (snd m) nn of None \<Rightarrow> [] | Some v \<Rightarrow> v)
                  @ getSubstitution s m ncap names (drop 1 ys)
                else if 1 \<le> d1 \<and> d1 \<le> ncap then
                  (case snd (snd m) d1 of None \<Rightarrow> [] | Some v \<Rightarrow> v)
                  @ getSubstitution s m ncap names ys
                else x # getSubstitution s m ncap names xs)
          else if y = CHR ''<'' \<and> names \<noteq> [] \<and> CHR ''>'' \<in> set ys then
            (let nm = takeWhile (\<lambda>c. c \<noteq> CHR ''>'') ys
             in (case map_of names nm of
                   None \<Rightarrow> []
                 | Some k \<Rightarrow> (case snd (snd m) k of None \<Rightarrow> [] | Some v \<Rightarrow> v))
                @ getSubstitution s m ncap names (drop (Suc (length nm)) ys))
          else x # getSubstitution s m ncap names xs)"
  by pat_completeness auto
termination
  by (relation "measure (\<lambda>(s, m, ncap, names, t). length t)") auto

declare getSubstitution.simps [simp del]

fun assemble ::
  "string \<Rightarrow> string \<Rightarrow> nat \<Rightarrow> (string \<times> nat) list \<Rightarrow> nat \<Rightarrow> found list \<Rightarrow> string" where
  "assemble s repl ncap names pos [] = drop pos s"
| "assemble s repl ncap names pos (m # ms) =
     (if pos \<le> fst m then
        take (fst m - pos) (drop pos s) @ getSubstitution s m ncap names repl
        @ assemble s repl ncap names (fst (snd m)) ms
      else assemble s repl ncap names pos ms)"


text \<open>The parser: escapes and classes.\<close>

definition backslash :: char where
  "backslash = CHR 0x5C"

definition hexVal :: "char \<Rightarrow> nat option" where
  "hexVal c = (if isDigit c then Some (of_char c - 48)
               else if CHR ''a'' \<le> c \<and> c \<le> CHR ''f'' then Some (of_char c - 87)
               else if CHR ''A'' \<le> c \<and> c \<le> CHR ''F'' then Some (of_char c - 55)
               else None)"

definition isOctal :: "char \<Rightarrow> bool" where
  "isOctal c = (CHR ''0'' \<le> c \<and> c \<le> CHR ''7'')"

definition octalEscape :: "string \<Rightarrow> nat \<times> nat" where
  \<comment> \<open>a legacy octal escape, on the text from its first digit: the code and the digits read\<close>
  "octalEscape s =
     (case s of
        [] \<Rightarrow> (0, 0)
      | a # r \<Rightarrow>
          (case r of
             [] \<Rightarrow> (digitVal a, 1)
           | b # r' \<Rightarrow>
               if isOctal b then
                 (case r' of
                    [] \<Rightarrow> (8 * digitVal a + digitVal b, 2)
                  | d # _ \<Rightarrow>
                      if 8 * digitVal a + digitVal b < 32 \<and> isOctal d
                      then (8 * (8 * digitVal a + digitVal b) + digitVal d, 3)
                      else (8 * digitVal a + digitVal b, 2))
               else (digitVal a, 1)))"

definition hexEscape :: "nat \<Rightarrow> string \<Rightarrow> nat option" where
  \<comment> \<open>the value of the first \<open>k\<close> characters when they are \<open>k\<close> hexadecimal digits\<close>
  "hexEscape k s =
     (if length s < k \<or> \<not> list_all (\<lambda>c. hexVal c \<noteq> None) (take k s) then None
      else Some (foldl (\<lambda>n c. 16 * n + (case hexVal c of Some v \<Rightarrow> v | None \<Rightarrow> 0)) 0 (take k s)))"

definition charEscape :: "bool \<Rightarrow> string \<Rightarrow> nat \<times> nat" where
  \<comment> \<open>a character escape, on the text after the backslash: the code unit and the characters read\<close>
  "charEscape inClass s =
     (case s of
        [] \<Rightarrow> (92, 0)
      | e # r \<Rightarrow>
          if e = CHR ''f'' then (12, 1)
          else if e = CHR ''n'' then (10, 1)
          else if e = CHR ''r'' then (13, 1)
          else if e = CHR ''t'' then (9, 1)
          else if e = CHR ''v'' then (11, 1)
          else if e = CHR ''c'' then
            (case r of
               [] \<Rightarrow> (92, 0)
             | l # _ \<Rightarrow>
                 if isUpper l \<or> isLower l \<or> (inClass \<and> (isDigit l \<or> l = CHR ''_''))
                 then (of_char l mod 32, 2) else (92, 0))
          else if e = CHR ''x'' then
            (case hexEscape 2 r of Some v \<Rightarrow> (v, 3) | None \<Rightarrow> (of_char e, 1))
          else if e = CHR ''u'' then
            (case hexEscape 4 r of Some v \<Rightarrow> (v, 5) | None \<Rightarrow> (of_char e, 1))
          else (of_char e, 1))"

definition classEscape :: "char \<Rightarrow> char \<Rightarrow> bool" where
  \<comment> \<open>the sets \<open>\d \D \s \S \w \W\<close>\<close>
  "classEscape e c =
     (if e = CHR ''d'' then isDigit c else if e = CHR ''D'' then \<not> isDigit c
      else if e = CHR ''s'' then isSpace c else if e = CHR ''S'' then \<not> isSpace c
      else if e = CHR ''w'' then isWordChar c else \<not> isWordChar c)"

definition lit :: "nat \<Rightarrow> node" where
  "lit n = NSet (\<lambda>c. of_char c = n)"

datatype citem = CChar nat | CRange nat nat | CSet "char \<Rightarrow> bool"

definition classAtom :: "string \<Rightarrow> (citem \<times> nat) option" where
  \<comment> \<open>one atom of a class: the item and the characters read after the first; None is a syntax error\<close>
  "classAtom s =
     (case s of
        [] \<Rightarrow> None
      | x # r \<Rightarrow>
          if x \<noteq> backslash then Some (CChar (of_char x), 0)
          else (case r of
                  [] \<Rightarrow> None
                | e # _ \<Rightarrow>
                    if e = CHR ''b'' then Some (CChar 8, 1)
                    else if e \<in> set ''dDsSwW'' then Some (CSet (classEscape e), 1)
                    else if isOctal e then Some (CChar (fst (octalEscape r)), snd (octalEscape r))
                    else Some (CChar (fst (charEscape True r)), snd (charEscape True r))))"

lemma drop_Cons_shorter: "drop k xs = y # ys \<Longrightarrow> length ys < length xs"
proof -
  assume "drop k xs = y # ys"
  then have "length (drop k xs) = Suc (length ys)" by simp
  then show ?thesis by simp
qed

function classBody :: "citem list \<Rightarrow> string \<Rightarrow> (citem list \<times> string) option" where
  "classBody acc [] = None"
| "classBody acc (x # xs) =
     (if x = CHR '']'' then Some (acc, xs)
      else case classAtom (x # xs) of
        None \<Rightarrow> None
      | Some a1 \<Rightarrow>
          (case drop (snd a1) xs of
             [] \<Rightarrow> None
           | y # ys \<Rightarrow>
               if y \<noteq> CHR ''-'' then classBody (acc @ [fst a1]) (drop (snd a1) xs)
               else (case ys of
                       [] \<Rightarrow> None
                     | z # zs \<Rightarrow>
                         if z = CHR '']'' then Some (acc @ [fst a1, CChar 45], zs)
                         else (case classAtom (z # zs) of
                                 None \<Rightarrow> None
                               | Some a2 \<Rightarrow>
                                   (case (fst a1, fst a2) of
                                      (CChar c1, CChar c2) \<Rightarrow>
                                        if c2 < c1 then None
                                        else classBody (acc @ [CRange c1 c2])
                                               (drop (snd a1 + snd a2 + 2) xs)
                                    | _ \<Rightarrow> classBody (acc @ [fst a1, CChar 45, fst a2])
                                               (drop (snd a1 + snd a2 + 2) xs))))))"
  by pat_completeness auto
termination
  by (relation "measure (\<lambda>(acc, s). length s)") (auto dest: drop_Cons_shorter)

declare classBody.simps [simp del]

definition classPred :: "bool \<Rightarrow> citem list \<Rightarrow> char \<Rightarrow> bool" where
  "classPred neg items c =
     (list_ex (\<lambda>it. case it of
                       CChar n \<Rightarrow> of_char c = n
                     | CRange a b \<Rightarrow> a \<le> (of_char c :: nat) \<and> (of_char c :: nat) \<le> b
                     | CSet P \<Rightarrow> P c) items \<noteq> neg)"


text \<open>
  The parser proper keeps a stack of the groups that are open, each with its finished
  alternatives and the terms of the alternative being read, and reads one term, bar or
  parenthesis at a time together with the quantifier that follows it.
\<close>

datatype gkind = GCapture nat | GPlain | GLook bool bool

type_synonym frame = "gkind \<times> node list \<times> node list"

fun seqOf :: "node list \<Rightarrow> node" where
  "seqOf [] = NEmpty"
| "seqOf [t] = t"
| "seqOf (t # ts) = NSeq t (seqOf ts)"

fun altOf :: "node list \<Rightarrow> node" where
  "altOf [] = NEmpty"
| "altOf [a] = a"
| "altOf (a # as) = NAlt a (altOf as)"

definition closeFrame :: "frame \<Rightarrow> node" where
  \<comment> \<open>the node of a group when it is closed: its alternatives, each the sequence of its terms\<close>
  "closeFrame f =
     (case f of (k, branches, cur) \<Rightarrow>
        (let d = altOf (branches @ [seqOf (rev cur)])
         in case k of GCapture n \<Rightarrow> NGroup n d | GPlain \<Rightarrow> d | GLook a p \<Rightarrow> NLook a p d))"

definition addTerm :: "frame list \<Rightarrow> node \<Rightarrow> frame list" where
  "addTerm st t = (case st of [] \<Rightarrow> [] | (k, branches, cur) # rest \<Rightarrow> (k, branches, t # cur) # rest)"

definition newAlternative :: "frame list \<Rightarrow> frame list" where
  "newAlternative st =
     (case st of [] \<Rightarrow> [] | (k, branches, cur) # rest \<Rightarrow> (k, branches @ [seqOf (rev cur)], []) # rest)"

definition braces :: "string \<Rightarrow> (nat \<times> nat option \<times> nat) option" where
  \<comment> \<open>\<open>{n}\<close>, \<open>{n,}\<close> or \<open>{n,m}\<close> at the head of the text: the bounds and the characters read\<close>
  "braces s =
     (case s of
        [] \<Rightarrow> None
      | x # r \<Rightarrow>
          if x \<noteq> CHR ''{'' then None
          else (let d1 = takeWhile isDigit r
                in if d1 = [] then None
                   else (case drop (length d1) r of
                           [] \<Rightarrow> None
                         | y # r2 \<Rightarrow>
                             if y = CHR ''}'' then Some (decimal d1, Some (decimal d1), length d1 + 2)
                             else if y = CHR '','' then
                               (let d2 = takeWhile isDigit r2
                                in case drop (length d2) r2 of
                                     [] \<Rightarrow> None
                                   | z # _ \<Rightarrow>
                                       if z = CHR ''}''
                                       then Some (decimal d1, if d2 = [] then None else Some (decimal d2),
                                                  length d1 + length d2 + 3)
                                       else None)
                             else None)))"

datatype quant = QNone | QBad | Quant nat "nat option" bool nat

definition quantifier :: "string \<Rightarrow> quant" where
  \<comment> \<open>the quantifier at the head of the text, if there is one, and the characters it takes\<close>
  "quantifier s =
     (case (case s of
              [] \<Rightarrow> None
            | x # _ \<Rightarrow>
                if x = CHR ''*'' then Some (0, None, 1)
                else if x = CHR ''+'' then Some (1, None, 1)
                else if x = CHR ''?'' then Some (0, Some 1, 1)
                else braces s) of
        None \<Rightarrow> QNone
      | Some (mn, mx, k) \<Rightarrow>
          if (case mx of None \<Rightarrow> False | Some m \<Rightarrow> m < mn) then QBad
          else (case drop k s of
                  [] \<Rightarrow> Quant mn mx True k
                | y # _ \<Rightarrow> if y = CHR ''?'' then Quant mn mx False (Suc k) else Quant mn mx True k))"

type_synonym pstate = "frame list \<times> nat \<times> nat"

definition withQuant :: "frame list \<Rightarrow> nat \<Rightarrow> node \<Rightarrow> bool \<Rightarrow> nat \<Rightarrow> string \<Rightarrow> pstate outcome" where
  \<comment> \<open>a term that took \<open>k\<close> characters of \<open>xs\<close>, with the quantifier that follows it\<close>
  "withQuant st n t quantifiable k xs =
     (if \<not> quantifiable then Returned (addTerm st t, n, k)
      else case quantifier (drop k xs) of
        QNone \<Rightarrow> Returned (addTerm st t, n, k)
      | QBad \<Rightarrow> Thrown SyntaxError
      | Quant mn mx g j \<Rightarrow> Returned (addTerm st (NRepeat t mn mx g), n, k + j))"

definition nameStart :: "char \<Rightarrow> bool" where
  "nameStart c = (isUpper c \<or> isLower c \<or> c = CHR ''_'' \<or> c = CHR ''$'')"

definition namePart :: "char \<Rightarrow> bool" where
  "namePart c = (nameStart c \<or> isDigit c)"

definition validName :: "string \<Rightarrow> bool" where
  "validName nm = (nm \<noteq> [] \<and> nameStart (hd nm) \<and> list_all namePart (tl nm))"

definition beyondAscii :: "string \<Rightarrow> bool" where
  \<comment> \<open>a group name with an escape or a character above 127, whose validity the Unicode tables decide\<close>
  "beyondAscii nm = list_ex (\<lambda>c. c = backslash \<or> 128 \<le> (of_char c :: nat)) nm"

type_synonym penv = "nat \<times> (string \<times> nat) list"

definition openGroup :: "frame list \<Rightarrow> nat \<Rightarrow> string \<Rightarrow> pstate outcome" where
  \<comment> \<open>after \<open>(\<close>: the kind of the group by what follows\<close>
  "openGroup st n xs =
     (case xs of
        [] \<Rightarrow> Returned ((GCapture n, [], []) # st, Suc n, 0)
      | q # r \<Rightarrow>
          if q \<noteq> CHR ''?'' then Returned ((GCapture n, [], []) # st, Suc n, 0)
          else (case r of
                  [] \<Rightarrow> Thrown SyntaxError
                | k # r2 \<Rightarrow>
                    if k = CHR '':'' then Returned ((GPlain, [], []) # st, n, 2)
                    else if k = CHR ''='' then Returned ((GLook True True, [], []) # st, n, 2)
                    else if k = CHR ''!'' then Returned ((GLook True False, [], []) # st, n, 2)
                    else if k = CHR ''<'' then
                      (case r2 of
                         [] \<Rightarrow> Thrown SyntaxError
                       | b # _ \<Rightarrow>
                           if b = CHR ''='' then Returned ((GLook False True, [], []) # st, n, 3)
                           else if b = CHR ''!'' then Returned ((GLook False False, [], []) # st, n, 3)
                           else (let nm = takeWhile (\<lambda>c. c \<noteq> CHR ''>'') r2
                                 in if CHR ''>'' \<notin> set r2 then Thrown SyntaxError
                                    else if beyondAscii nm then NotModelled
                                    else if \<not> validName nm then Thrown SyntaxError
                                    else Returned ((GCapture n, [], []) # st, Suc n, length nm + 3)))
                    else if k \<in> set ''ims-'' then NotModelled
                    else Thrown SyntaxError))"

definition escape :: "penv \<Rightarrow> frame list \<Rightarrow> nat \<Rightarrow> string \<Rightarrow> pstate outcome" where
  \<comment> \<open>after a backslash outside a class\<close>
  "escape env st n xs =
     (case xs of
        [] \<Rightarrow> Thrown SyntaxError
      | e # r \<Rightarrow>
          if e = CHR ''b'' then withQuant st n (NWordB True) False 1 xs
          else if e = CHR ''B'' then withQuant st n (NWordB False) False 1 xs
          else if e \<in> set ''dDsSwW'' then withQuant st n (NSet (classEscape e)) True 1 xs
          else if isDigit e \<and> e \<noteq> CHR ''0'' \<and> decimal (takeWhile isDigit xs) \<le> fst env then
            withQuant st n (NBackRef (decimal (takeWhile isDigit xs))) True (length (takeWhile isDigit xs)) xs
          else if isOctal e then
            withQuant st n (lit (fst (octalEscape xs))) True (snd (octalEscape xs)) xs
          else if e = CHR ''k'' \<and> snd env \<noteq> [] then
            (case r of
               [] \<Rightarrow> Thrown SyntaxError
             | a # r2 \<Rightarrow>
                 if a \<noteq> CHR ''<'' \<or> CHR ''>'' \<notin> set r2 then Thrown SyntaxError
                 else (let nm = takeWhile (\<lambda>c. c \<noteq> CHR ''>'') r2
                       in if beyondAscii nm then NotModelled
                          else if \<not> validName nm then Thrown SyntaxError
                          else (case map_of (snd env) nm of
                                  None \<Rightarrow> Thrown SyntaxError
                                | Some k \<Rightarrow> withQuant st n (NBackRef k) True (length nm + 3) xs)))
          else withQuant st n (lit (fst (charEscape False xs))) True (snd (charEscape False xs)) xs)"

definition step :: "penv \<Rightarrow> frame list \<Rightarrow> nat \<Rightarrow> char \<Rightarrow> string \<Rightarrow> pstate outcome" where
  \<comment> \<open>one term, bar or parenthesis of the pattern: the stack, the group counter and the
      characters of \<open>xs\<close> that were read\<close>
  "step env st n x xs =
     (if x = CHR ''|'' then Returned (newAlternative st, n, 0)
      else if x = CHR '')'' then
        (case st of
           f # g # rest \<Rightarrow>
             withQuant (g # rest) n (closeFrame f)
               (case fst f of GLook ahead p \<Rightarrow> ahead | _ \<Rightarrow> True) 0 xs
         | _ \<Rightarrow> Thrown SyntaxError)
      else if x = CHR ''('' then openGroup st n xs
      else if x = CHR ''^'' then withQuant st n NBol False 0 xs
      else if x = CHR ''$'' then withQuant st n NEol False 0 xs
      else if x = CHR ''.'' then withQuant st n (NSet (\<lambda>c. \<not> lineTerminator c)) True 0 xs
      else if x = CHR ''*'' \<or> x = CHR ''+'' \<or> x = CHR ''?'' then Thrown SyntaxError
      else if x = CHR ''{'' \<and> braces (x # xs) \<noteq> None then Thrown SyntaxError
      else if x = CHR ''['' then
        (case classBody [] (if take 1 xs = ''^'' then drop 1 xs else xs) of
           None \<Rightarrow> Thrown SyntaxError
         | Some (items, rest) \<Rightarrow>
             withQuant st n (NSet (classPred (take 1 xs = ''^'') items)) True
               (length xs - length rest) xs)
      else if x = backslash then escape env st n xs
      else withQuant st n (lit (of_char x)) True 0 xs)"

function parse :: "penv \<Rightarrow> frame list \<Rightarrow> nat \<Rightarrow> string \<Rightarrow> node outcome" where
  "parse env st n [] = (case st of [f] \<Rightarrow> Returned (closeFrame f) | _ \<Rightarrow> Thrown SyntaxError)"
| "parse env st n (x # xs) =
     (case step env st n x xs of
        Returned ps \<Rightarrow> parse env (fst ps) (fst (snd ps)) (drop (snd (snd ps)) xs)
      | Thrown e \<Rightarrow> Thrown e
      | NotModelled \<Rightarrow> NotModelled)"
  by pat_completeness auto
termination
  by (relation "measure (\<lambda>(env, st, n, s). length s)") auto


text \<open>
  Whether \<open>\3\<close> is a back reference depends on the number of groups of the whole pattern,
  and whether \<open>\k\<close> starts a named reference on the presence of a named group; both are
  found by a scan before the pattern is parsed.
\<close>

fun scanCaptures :: "bool \<Rightarrow> penv \<Rightarrow> string \<Rightarrow> penv" where
  \<comment> \<open>the number of capturing groups of a pattern and the names of the named ones, found
      before the pattern is parsed; the flag is True inside a class\<close>
  "scanCaptures inClass acc [] = acc"
| "scanCaptures inClass acc (x # xs) =
     (if x = backslash then scanCaptures inClass acc (drop 1 xs)
      else if inClass then scanCaptures (x \<noteq> CHR '']'') acc xs
      else if x = CHR ''['' then scanCaptures True acc xs
      else if x = CHR ''('' then
        (if take 1 xs \<noteq> ''?'' then scanCaptures False (Suc (fst acc), snd acc) xs
         else if take 1 (drop 1 xs) \<noteq> ''<'' then scanCaptures False acc xs
         else if take 1 (drop 2 xs) = ''='' \<or> take 1 (drop 2 xs) = ''!'' then scanCaptures False acc xs
         else scanCaptures False
                (Suc (fst acc), snd acc @ [(takeWhile (\<lambda>c. c \<noteq> CHR ''>'') (drop 2 xs), Suc (fst acc))]) xs)
      else scanCaptures False acc xs)"

definition compile :: "string \<Rightarrow> (node \<times> penv) outcome" where
  \<comment> \<open>\<open>new RegExp(src, 'g')\<close>\<close>
  "compile src =
     (let env = scanCaptures False (0, []) src
      in case parse env [(GPlain, [], [])] 1 src of
           Returned r \<Rightarrow> if distinct (map fst (snd env)) then Returned (r, env) else NotModelled
         | Thrown e \<Rightarrow> Thrown e
         | NotModelled \<Rightarrow> NotModelled)"

definition regExpReplace :: "string \<Rightarrow> string \<Rightarrow> string \<Rightarrow> string outcome" where
  \<comment> \<open>\<open>s.replace(new RegExp(src, 'g'), repl)\<close>\<close>
  "regExpReplace src s repl =
     (case compile src of
        Returned (r, env) \<Rightarrow> Returned (assemble s repl (fst env) (snd env) 0 (allMatches r s 0))
      | Thrown e \<Rightarrow> Thrown e
      | NotModelled \<Rightarrow> NotModelled)"

definition substParam :: "string \<Rightarrow> string \<Rightarrow> string outcome" where
  \<comment> \<open>\<open>urlPath.replace(new RegExp(`:${p}(?![A-Za-z0-9_])`, 'g'), `<${p}>`)\<close>\<close>
  "substParam urlPath p = regExpReplace ('':'' @ p @ ''(?![A-Za-z0-9_])'') urlPath (''<'' @ p @ ''>'')"

fun substParams :: "string \<Rightarrow> string list \<Rightarrow> string outcome" where
  \<comment> \<open>the loop over \<open>handler.params.pathParams\<close>, left at the first call that throws\<close>
  "substParams urlPath [] = Returned urlPath"
| "substParams urlPath (p # ps) =
     (case substParam urlPath p of
        Returned u \<Rightarrow> substParams u ps
      | Thrown e \<Rightarrow> Thrown e
      | NotModelled \<Rightarrow> NotModelled)"

subsection \<open>The command\<close>

definition addHeader :: "(string \<times> string) list \<Rightarrow> string \<Rightarrow> (string \<times> string) list" where
  \<comment> \<open>one turn of the loop over the inferred header names; the test is \<open>headers[h] !== undefined\<close>\<close>
  "addHeader hs h =
     (if map_of hs h \<noteq> None \<or> h \<in> set objectPrototypeKeys then hs
      else if map toLowerChar h = ''authorization'' then assocSet hs h ''Bearer <token>''
      else assocSet hs h (placeholder h))"

definition withContentType :: "(string \<times> string) list \<Rightarrow> string \<Rightarrow> (string \<times> string) list" where
  \<comment> \<open>\<open>headers['Content-Type'] = headers['Content-Type'] || dflt\<close>\<close>
  "withContentType hs dflt = assocSet hs ''Content-Type'' (orElse (map_of hs ''Content-Type'') dflt)"

definition bodyCarrying :: "string list" where
  "bodyCarrying = [''POST'', ''PUT'', ''PATCH'', ''DELETE'']"

definition bodySection ::
  "string \<Rightarrow> HandlerParams \<Rightarrow> string \<Rightarrow> (string \<times> string) list
     \<Rightarrow> ((string \<times> string) list \<times> string \<times> string) option" where
  \<comment> \<open>the block under \<open>// Body\<close>: the headers, \<open>dataFlag\<close> and \<open>bodyPart\<close> after it\<close>
  "bodySection now ps meth hs =
     (if meth \<in> set bodyCarrying then
        (case bodyType ps of
           Json \<Rightarrow>
             (case jsonFields ps of
                None \<Rightarrow> Some (withContentType hs ''application/json'', ''-d'', [sq] @ ''{}'' @ [sq])
              | Some fs \<Rightarrow>
                  if fs \<noteq> [] then
                    (case sampleObject now fs [] of
                       None \<Rightarrow> None
                     | Some obj \<Rightarrow>
                         Some (withContentType hs ''application/json'', ''-d'',
                               shellQuote (stringify 0 (JObject (ownEntries obj)))))
                  else Some (withContentType hs ''application/json'', ''-d'', [sq] @ ''{}'' @ [sq]))
         | Form \<Rightarrow>
             Some (withContentType hs ''application/x-www-form-urlencoded'', ''--data-urlencode'',
                   (case queryParams ps of
                      [] \<Rightarrow> [sq, sq]
                    | q # _ \<Rightarrow> [sq] @ q @ ''='' @ placeholder q @ [sq]))
         | Multipart \<Rightarrow>
             Some (withContentType hs ''multipart/form-data'', ''-F'', [sq] @ ''file=@<path_to_file>'' @ [sq])
         | NoBody \<Rightarrow> Some (hs, [], [])
         | Unknown \<Rightarrow> Some (hs, [], []))
      else Some (hs, [], []))"

definition lineBreak :: string where
  \<comment> \<open>the separator \<open>' \\\n\t'\<close>: space, backslash, newline, tab\<close>
  "lineBreak = [CHR '' '', CHR 0x5C, CHR 0x0A, CHR 0x09]"

definition curlMethod :: "RouteRegistration option \<Rightarrow> string" where
  \<comment> \<open>\<open>(route?.method || 'GET').toUpperCase()\<close>; method tokens are ASCII\<close>
  "curlMethod route = map toUpperChar (orElse (map_option httpMethod route) ''GET'')"

definition curlPath :: "HandlerFunction \<Rightarrow> RouteRegistration option \<Rightarrow> string" where
  \<comment> \<open>\<open>route?.path || `/${handler.name}`\<close>\<close>
  "curlPath handler route = orElse (map_option path route) (''/'' @ fnName handler)"

definition queryStringOf :: "HandlerParams \<Rightarrow> string" where
  "queryStringOf ps =
     (let queryPairs = map (\<lambda>q. encodeURIComponent q @ ''=<'' @ q @ ''>'') (queryParams ps)
      in if queryPairs = [] then [] else ''?'' @ joinWith ''&'' queryPairs)"

definition requestHeaders :: "CurlGenerationOptions \<Rightarrow> HandlerParams \<Rightarrow> (string \<times> string) list" where
  \<comment> \<open>the header record before the body block: defaults, inferred headers, cookies\<close>
  "requestHeaders opts ps =
     (let hs1 = foldl addHeader (defaultHeaders opts) (headers ps)
      in if cookies ps = [] then hs1
         else assocSet hs1 ''Cookie''
                (joinWith ''; '' (map (\<lambda>n. n @ ''='' @ placeholder n) (cookies ps))))"

definition headerFlagsOf :: "(string \<times> string) list \<Rightarrow> string" where
  \<comment> \<open>\<open>Object.entries(headers).map(...).join(' \\\n\t')\<close>\<close>
  "headerFlagsOf hs =
     joinWith lineBreak (map (\<lambda>kv. ''-H '' @ shellQuote (fst kv @ '': '' @ snd kv)) (ownEntries hs))"

definition curlParts ::
  "string \<Rightarrow> HandlerFunction \<Rightarrow> RouteRegistration option \<Rightarrow> CurlGenerationOptions
     \<Rightarrow> string list outcome option" where
  \<comment> \<open>the array \<open>parts\<close> at the end of \<open>generateCurl\<close>, or the exception that ends the call\<close>
  "curlParts now handler route opts =
     (let ps = params handler;
          meth = curlMethod route
      in case substParams (curlPath handler route) (pathParams ps) of
           Thrown e \<Rightarrow> Some (Thrown e)
         | NotModelled \<Rightarrow> Some NotModelled
         | Returned urlPath \<Rightarrow>
             (case bodySection now ps meth (requestHeaders opts ps) of
                None \<Rightarrow> None
              | Some (hs3, dataFlag, bodyPart) \<Rightarrow>
                  (let headerFlags = headerFlagsOf hs3;
                       url = replaceFirst (Seq (Str ''/'') Eol) (baseUrl opts) [] @ urlPath @ queryStringOf ps
                   in Some (Returned
                        ([''curl'', ''-X '' @ meth]
                         @ (if headerFlags = [] then [] else [headerFlags])
                         @ (if dataFlag \<noteq> [] \<and> bodyPart \<noteq> [] then [dataFlag @ '' '' @ bodyPart] else [])
                         @ [shellQuote url])))))"

definition generateCurl ::
  "string \<Rightarrow> HandlerFunction \<Rightarrow> RouteRegistration option \<Rightarrow> CurlGenerationOptions
     \<Rightarrow> string outcome option" where
  \<comment> \<open>None is a call that does not return (see \<open>sampleValueForGoType\<close>)\<close>
  "generateCurl now handler route opts =
     map_option (map_outcome (joinWith lineBreak)) (curlParts now handler route opts)"


section \<open>Notions used in the statements\<close>

text \<open>
  The definitions of this section are not part of the program: they name what the
  properties below speak about.
\<close>

text \<open>A path with two consecutive slashes.\<close>

fun hasDoubleSlash :: "string \<Rightarrow> bool" where
  "hasDoubleSlash (a # b # r) = ((a = CHR ''/'' \<and> b = CHR ''/'') \<or> hasDoubleSlash (b # r))"
| "hasDoubleSlash _ = False"

text \<open>The non-empty pieces of a path between its slashes, in order.\<close>

definition pathSegments :: "string \<Rightarrow> string list" where
  "pathSegments s = filter (\<lambda>w. w \<noteq> []) (splitOn CHR ''/'' s)"

text \<open>
  The \<open>.Group\<close> declarations of a chain: \<open>v1 := base.Group(s1)\<close>, \<open>v2 := v1.Group(s2)\<close>, and
  so on, each as the triple \<open>(child, base, rel)\<close> the scanner reads.
\<close>

fun chainDecls :: "string \<Rightarrow> (string \<times> string) list \<Rightarrow> (string \<times> string \<times> string) list" where
  "chainDecls base [] = []"
| "chainDecls base ((v, s) # rest) = (v, base, s) # chainDecls v rest"

text \<open>A prefix as the loop builds it: empty or starting with a slash, and without a double slash.\<close>

definition rooted :: "string \<Rightarrow> bool" where
  "rooted a = ((a = [] \<or> hd a = CHR ''/'') \<and> \<not> hasDoubleSlash a)"


text \<open>
  The position of the first occurrence of \<open>x\<close> in a list, and a list that holds every
  element of \<open>xs\<close> once, ordered by first occurrence in \<open>xs\<close>.
\<close>

definition firstPos :: "'a list \<Rightarrow> 'a \<Rightarrow> nat" where
  "firstPos xs x = length (takeWhile (\<lambda>y. y \<noteq> x) xs)"

definition firstOccurrences :: "'a list \<Rightarrow> 'a list \<Rightarrow> bool" where
  "firstOccurrences xs ys =
     (distinct ys \<and> set ys = set xs \<and> sorted_wrt (\<lambda>a b. firstPos xs a < firstPos xs b) ys)"

text \<open>Matches listed in the order of their positions in the text, none overlapping the next.\<close>

definition inTextOrder :: "rmatch list \<Rightarrow> bool" where
  "inTextOrder ms = sorted_wrt (\<lambda>a b. index a < lastIndex a \<and> lastIndex a \<le> index b) ms"

text \<open>
  The base address as the specification words it. \<open>addressCalls\<close> lists, for one file,
  the server-start calls with a literal address that normalises, in the order the scan
  visits them (the \<open>Run\<close> and \<open>RunTLS\<close> calls of the file, then its \<open>ListenAndServe\<close>
  calls), each with its HTTPS flag and its normalised address. \<open>baseUrlSpec\<close> is the
  three-case function: the first such call of the corpus if there is one, else the
  conventional default if some file holds a start call without arguments, else nothing.
\<close>

definition addressCalls :: "string \<Rightarrow> (bool \<times> string) list" where
  "addressCalls text =
     List.map_filter (\<lambda>m. map_option (\<lambda>hp. (isTLSAt text m, hp)) (normalizeAddr (grp m 1)))
       (execAll runRe text 0)
     @ List.map_filter (\<lambda>m. map_option (\<lambda>hp. (False, hp)) (normalizeAddr (grp m 1)))
         (execAll listenRe text 0)"

definition baseUrlSpec :: "string list \<Rightarrow> string option" where
  "baseUrlSpec files =
     (case concat (map addressCalls files) of
        (tls, hp) # _ \<Rightarrow> Some ((if tls then ''https'' else ''http'') @ ''://'' @ hp)
      | [] \<Rightarrow> if list_ex (test runNoArgsRe) files then Some ''http://localhost:8080'' else None)"

text \<open>
  The reads of the brace loop: \<open>fmbReads\<close> follows \<open>fmbLoop\<close> turn by turn and lists the
  indices at which the loop evaluates \<open>text[i]\<close>.
\<close>

function fmbReads :: "string \<Rightarrow> nat \<Rightarrow> int \<Rightarrow> nat list" where
  "fmbReads text i depth =
     (if i < length text then
        i # (if text ! i = CHR ''{'' then fmbReads text (i + 1) (depth + 1)
             else if text ! i = CHR ''}'' then
               (if depth - 1 = 0 then [] else fmbReads text (i + 1) (depth - 1))
             else fmbReads text (i + 1) depth)
      else [])"
  by pat_completeness auto
termination
  by (relation "measure (\<lambda>(text, i, depth). length text - i)") auto

declare fmbReads.simps [simp del]

definition isIdentifier :: "string \<Rightarrow> bool" where
  "isIdentifier s = (s \<noteq> [] \<and> identStart (hd s) \<and> list_all isWordChar (tl s))"


text \<open>
  Two conditions on the \<open>.Group\<close> declarations of a text under which the loop over them
  stops: every group variable is assigned from one declaration only, and no group is
  derived from itself, which a rank that grows from each declared base to its child
  witnesses.
\<close>

definition singleAssigned :: "(string \<times> string \<times> string) list \<Rightarrow> bool" where
  "singleAssigned ds = distinct (map fst ds)"

definition ranked :: "(string \<Rightarrow> nat) \<Rightarrow> (string \<times> string \<times> string) list \<Rightarrow> bool" where
  "ranked rk ds =
     list_all (\<lambda>d. fst (snd d) \<in> set (map fst ds) \<longrightarrow> rk (fst (snd d)) < rk (fst d)) ds"

text \<open>
  The prefix the loop reads for a base variable, and a declaration whose child holds,
  in a map, the prefix joined from that map's prefix of its base.
\<close>

definition prefixOf :: "prefixMap \<Rightarrow> string \<Rightarrow> string" where
  "prefixOf m b = (case m b of Some p \<Rightarrow> p | None \<Rightarrow> [])"

definition solved :: "prefixMap \<Rightarrow> string \<times> string \<times> string \<Rightarrow> bool" where
  "solved m d = (m (fst d) = Some (joinPaths (prefixOf m (fst (snd d))) (snd (snd d))))"








section \<open>Brace matching\<close>

lemma slice_in_range:
  "i \<le> j \<Longrightarrow> j \<le> length s \<Longrightarrow> slice s (int i) (int j) = take (j - i) (drop i s)"
  by (simp add: slice_def Let_def min_def nat_diff_distrib')

lemma fmbLoop_result:
  "fmbLoop t k d = r \<Longrightarrow> r \<noteq> - 1 \<Longrightarrow>
     \<exists>j. r = int j \<and> k \<le> j \<and> j < length t \<and> t ! j = CHR ''}'' \<and>
         d + int (count_list (take (Suc j - k) (drop k t)) CHR ''{'')
           = int (count_list (take (Suc j - k) (drop k t)) CHR ''}'')"
proof (induction t k d rule: fmbLoop.induct)
  case (1 t i depth)
  show ?case
  proof (cases "i < length t")
    case False
    with "1.prems" show ?thesis by (subst (asm) fmbLoop.simps) simp
  next
    case True
    then have dr: "drop i t = t ! i # drop (Suc i) t"
      by (simp add: Cons_nth_drop_Suc)
    have tk: "\<And>j. i < j \<Longrightarrow> take (Suc j - i) (drop i t) = t ! i # take (Suc j - Suc i) (drop (Suc i) t)"
      using dr by (simp add: Suc_diff_le)
    consider (op) "t ! i = CHR ''{''"
      | (cl0) "t ! i = CHR ''}''" "depth - 1 = 0"
      | (cl) "t ! i = CHR ''}''" "depth - 1 \<noteq> 0"
      | (other) "t ! i \<noteq> CHR ''{''" "t ! i \<noteq> CHR ''}''"
      by blast
    then show ?thesis
    proof cases
      case op
      with True "1.prems" have "fmbLoop t (i + 1) (depth + 1) = r"
        by (subst (asm) fmbLoop.simps) simp
      from "1.IH"(1)[OF True op this "1.prems"(2)] obtain j where
        j: "r = int j" "i + 1 \<le> j" "j < length t" "t ! j = CHR ''}''"
           "depth + 1 + int (count_list (take (Suc j - (i + 1)) (drop (i + 1) t)) CHR ''{'')
             = int (count_list (take (Suc j - (i + 1)) (drop (i + 1) t)) CHR ''}'')"
        by blast
      from j(2) have "i < j" by simp
      with j op tk[of j] show ?thesis by (intro exI[of _ j]) simp
    next
      case cl0
      with True "1.prems" have "r = int i"
        by (subst (asm) fmbLoop.simps) simp
      with True cl0 dr show ?thesis by (intro exI[of _ i]) simp
    next
      case cl
      with True "1.prems" have "fmbLoop t (i + 1) (depth - 1) = r"
        by (subst (asm) fmbLoop.simps) simp
      from "1.IH"(2)[OF True _ cl(1) cl(2) this "1.prems"(2)] cl(1) obtain j where
        j: "r = int j" "i + 1 \<le> j" "j < length t" "t ! j = CHR ''}''"
           "depth - 1 + int (count_list (take (Suc j - (i + 1)) (drop (i + 1) t)) CHR ''{'')
             = int (count_list (take (Suc j - (i + 1)) (drop (i + 1) t)) CHR ''}'')"
        by auto
      from j(2) have "i < j" by simp
      with j cl tk[of j] show ?thesis by (intro exI[of _ j]) simp
    next
      case other
      with True "1.prems" have "fmbLoop t (i + 1) depth = r"
        by (subst (asm) fmbLoop.simps) simp
      from "1.IH"(3)[OF True other this "1.prems"(2)] obtain j where
        j: "r = int j" "i + 1 \<le> j" "j < length t" "t ! j = CHR ''}''"
           "depth + int (count_list (take (Suc j - (i + 1)) (drop (i + 1) t)) CHR ''{'')
             = int (count_list (take (Suc j - (i + 1)) (drop (i + 1) t)) CHR ''}'')"
        by blast
      from j(2) have "i < j" by simp
      with j other tk[of j] show ?thesis by (intro exI[of _ j]) simp
    qed
  qed
qed

lemma fmbReads_in_range: "k \<in> set (fmbReads t i d) \<Longrightarrow> i \<le> k \<and> k < length t"
proof (induction t i d rule: fmbReads.induct)
  case (1 t i depth)
  show ?case
  proof (cases "i < length t")
    case False
    with "1.prems" show ?thesis by (subst (asm) fmbReads.simps) simp
  next
    case True
    from "1.prems" True have "k = i \<or>
        (t ! i = CHR ''{'' \<and> k \<in> set (fmbReads t (i + 1) (depth + 1))) \<or>
        (t ! i \<noteq> CHR ''{'' \<and> t ! i = CHR ''}'' \<and> depth - 1 \<noteq> 0 \<and> k \<in> set (fmbReads t (i + 1) (depth - 1))) \<or>
        (t ! i \<noteq> CHR ''{'' \<and> t ! i \<noteq> CHR ''}'' \<and> k \<in> set (fmbReads t (i + 1) depth))"
      by (subst (asm) fmbReads.simps) (auto split: if_splits)
    then show ?thesis
      using "1.IH"(1)[OF True] "1.IH"(2)[OF True] "1.IH"(3)[OF True] True by fastforce
  qed
qed

lemma innerCtxParam_empty: "exec (innerCtxParam alias) [] 0 = None"
  by (simp add: exec_def innerCtxParam_def)

text \<open>
  C8. For a text \<open>t\<close> and an index \<open>i\<close> with \<open>t[i] = '{'\<close>, \<open>findMatchingBrace\<close> returns
  either -1 or an index \<open>j\<close> with \<open>i < j < length t\<close> and \<open>t[j] = '}'\<close> such that the slice
  \<open>t[i..j]\<close> holds as many opening as closing braces. Every index the loop reads lies
  inside the text. When the result is -1, the handler extractor works on the empty
  body: both \<open>bodyText1\<close> (pattern 1) and \<open>inner2\<close> (patterns 2 and 2b) are empty, and the
  request shape of the handler is the one inferred from the empty string.
\<close>

theorem findMatchingBrace_balanced:
  assumes "i < length t" and "t ! i = CHR ''{''"
  shows "(\<forall>k \<in> set (fmbReads t i 0). i \<le> k \<and> k < length t) \<and>
         ((findMatchingBrace t i = - 1 \<and> bodyText1 t i = [] \<and> inner2 t i = [] \<and>
          (\<forall>alias file m. lastIndex m - 1 = i \<longrightarrow>
             params (handler1 t alias file m)
               = inferParamsFromBody [] (extractContextParamName (grp m 2) alias) alias t \<and>
             params (handler2 t alias file m) = inferParamsFromBody [] None alias t)) \<or>
         (\<exists>j. findMatchingBrace t i = int j \<and> i < j \<and> j < length t \<and> t ! j = CHR ''}'' \<and>
              count_list (slice t (int i) (int j + 1)) CHR ''{''
                = count_list (slice t (int i) (int j + 1)) CHR ''}''))"
proof (cases "findMatchingBrace t i = - 1")
  case True
  then have e: "bodyText1 t i = []" "inner2 t i = []"
    by (simp_all add: bodyText1_def inner2_def slice_def Let_def)
  then have "\<forall>alias file m. lastIndex m - 1 = i \<longrightarrow>
             params (handler1 t alias file m)
               = inferParamsFromBody [] (extractContextParamName (grp m 2) alias) alias t \<and>
             params (handler2 t alias file m) = inferParamsFromBody [] None alias t"
    by (simp add: handler1_def handler2_def Let_def innerCtxParam_empty)
  with True e fmbReads_in_range[of _ t i 0] show ?thesis by blast
next
  case False
  from fmbLoop_result[OF refl, of t i 0] False obtain j where
    j: "findMatchingBrace t i = int j" "i \<le> j" "j < length t" "t ! j = CHR ''}''"
       "int (count_list (take (Suc j - i) (drop i t)) CHR ''{'')
         = int (count_list (take (Suc j - i) (drop i t)) CHR ''}'')"
    unfolding findMatchingBrace_def by auto
  from j(4) assms(2) have "i \<noteq> j" by auto
  with j(2) have lt: "i < j" by simp
  have "slice t (int i) (int j + 1) = take (Suc j - i) (drop i t)"
    using slice_in_range[of i "Suc j" t] lt j(3) by (simp add: add.commute)
  with j lt have "\<exists>j. findMatchingBrace t i = int j \<and> i < j \<and> j < length t \<and> t ! j = CHR ''}'' \<and>
              count_list (slice t (int i) (int j + 1)) CHR ''{''
                = count_list (slice t (int i) (int j + 1)) CHR ''}''"
    by auto
  with fmbReads_in_range[of _ t i 0] show ?thesis by blast
qed

theorem findMatchingBrace_balanced_witness:
  "1 < length ''f{a{b}c}x'' \<and> ''f{a{b}c}x'' ! 1 = CHR ''{'' \<and>
   findMatchingBrace ''f{a{b}c}x'' 1 = 7 \<and> fmbReads ''f{a{b}c}x'' 1 0 = [1, 2, 3, 4, 5, 6, 7] \<and>
   count_list (slice ''f{a{b}c}x'' 1 8) CHR ''{'' = count_list (slice ''f{a{b}c}x'' 1 8) CHR ''}''"
proof -
  have h1: "1 < length ''f{a{b}c}x''" by simp
  have h2: "''f{a{b}c}x'' ! 1 = CHR ''{''" by simp
  have v: "findMatchingBrace ''f{a{b}c}x'' 1 = 7" by code_simp
  have w: "fmbReads ''f{a{b}c}x'' 1 0 = [1, 2, 3, 4, 5, 6, 7]" by code_simp
  from findMatchingBrace_balanced[OF h1 h2] v
  have "count_list (slice ''f{a{b}c}x'' 1 8) CHR ''{'' = count_list (slice ''f{a{b}c}x'' 1 8) CHR ''}''"
    by auto
  with h1 h2 v w show ?thesis by blast
qed

lemma findMatchingBrace_unclosed_example:
  "findMatchingBrace ''f{a{b}c'' 1 = - 1 \<and> bodyText1 ''f{a{b}c'' 1 = [] \<and> inner2 ''f{a{b}c'' 1 = []"
  by code_simp

section \<open>Group prefixes: the loop\<close>

lemma slice_butlast: "slice a 0 (- 1) = butlast a"
  by (simp add: slice_def Let_def butlast_conv_take nat_diff_distrib' max_def)

lemma groupLoop_Some_stops:
  assumes a: "groupLoop t mp = Some y"
  shows "\<exists>m. snd (foldl groupStep (m, False) (groupDecls t)) = False"
proof (rule groupLoop.raw_induct[where P = "\<lambda>t mp y. \<exists>m. snd (foldl groupStep (m, False) (groupDecls t)) = False", OF _ a])
  fix loop :: "string \<Rightarrow> prefixMap \<Rightarrow> prefixMap option" and t mp y
  assume ih: "\<And>t mp y. loop t mp = Some y \<Longrightarrow> \<exists>m. snd (foldl groupStep (m, False) (groupDecls t)) = False"
    and eq: "(case foldl groupStep (mp, False) (groupDecls t) of
                (mp', updated) \<Rightarrow> if updated then loop t mp' else Some mp') = Some y"
  obtain mp' u where f: "foldl groupStep (mp, False) (groupDecls t) = (mp', u)"
    by (cases "foldl groupStep (mp, False) (groupDecls t)") auto
  show "\<exists>m. snd (foldl groupStep (m, False) (groupDecls t)) = False"
  proof (cases u)
    case True
    with f eq have "loop t mp' = Some y" by simp
    from ih[OF this] show ?thesis .
  next
    case False
    with f have "snd (foldl groupStep (mp, False) (groupDecls t)) = False" by simp
    then show ?thesis by blast
  qed
qed

lemma groupLoop_diverges:
  assumes "\<And>m. snd (foldl groupStep (m, False) (groupDecls t))"
  shows "groupLoop t mp = None"
proof (cases "groupLoop t mp")
  case None
  then show ?thesis .
next
  case (Some y)
  from groupLoop_Some_stops[OF this] assms show ?thesis by simp
qed

lemma joinPaths_longer: "2 \<le> length b \<Longrightarrow> length a < length (joinPaths a b)"
  by (auto simp: joinPaths_def slice_butlast Let_def)

lemma selfGroup_decls: "groupDecls ''a := a.Group(\"/x\")'' = [(''a'', ''a'', ''/x'')]"
  by code_simp


text \<open>
  C2. The claim is that building the prefix map stops on every text, also on a
  self-referential group definition. On the text \<open>a := a.Group("/x")\<close> the loop does not
  stop: every pass finds the prefix of \<open>a\<close> longer than the one stored and sets the flag
  again. The two loops over the root patterns and every single pass do end.
\<close>

theorem selfGroup_diverges: "buildGroupPrefixMap ''a := a.Group(\"/x\")'' ''gin'' = None"
proof -
  have "\<And>m. snd (foldl groupStep (m, False) (groupDecls ''a := a.Group(\"/x\")''))"
  proof -
    fix m :: prefixMap
    show "snd (foldl groupStep (m, False) (groupDecls ''a := a.Group(\"/x\")''))"
    proof (cases "m ''a''")
      case None
      then show ?thesis by (simp add: selfGroup_decls groupStep_def Let_def)
    next
      case (Some p)
      have "length p < length (joinPaths p ''/x'')" by (rule joinPaths_longer) simp
      then have "joinPaths p ''/x'' \<noteq> p" by auto
      with Some show ?thesis by (simp add: selfGroup_decls groupStep_def Let_def)
    qed
  qed
  then show ?thesis unfolding buildGroupPrefixMap_def by (rule groupLoop_diverges)
qed

lemma twiceGroup_decls: "groupDecls ''g := r.Group(\"/a\")\<newline>g := r.Group(\"/b\")'' = [(''g'', ''r'', ''/a''), (''g'', ''r'', ''/b'')]"
  by code_simp

text \<open>
  The same happens without any cycle, when one variable name is assigned from two
  \<open>.Group\<close> calls with different literals (two functions of one file that both declare
  \<open>g\<close>): each pass overwrites the prefix twice.
\<close>

lemma twiceGroup_diverges: "buildGroupPrefixMap ''g := r.Group(\"/a\")\<newline>g := r.Group(\"/b\")'' ''gin'' = None"
proof -
  have "\<And>m. snd (foldl groupStep (m, False) (groupDecls ''g := r.Group(\"/a\")\<newline>g := r.Group(\"/b\")''))"
  proof -
    fix m :: prefixMap
    have ne: "\<And>p. joinPaths p ''/a'' \<noteq> joinPaths p ''/b''"
      by (simp add: joinPaths_def startsWith_def Let_def)
    show "snd (foldl groupStep (m, False) (groupDecls ''g := r.Group(\"/a\")\<newline>g := r.Group(\"/b\")''))"
      using ne by (auto simp: twiceGroup_decls groupStep_def Let_def split: option.splits)
  qed
  then show ?thesis unfolding buildGroupPrefixMap_def by (rule groupLoop_diverges)
qed

section \<open>Group prefixes: nested groups\<close>

lemma startsWith_slash: "startsWith s ''/'' \<longleftrightarrow> s \<noteq> [] \<and> hd s = CHR ''/''"
  by (cases s) (auto simp: startsWith_def)

lemma endsWith_slash: "endsWith s ''/'' \<longleftrightarrow> s \<noteq> [] \<and> last s = CHR ''/''"
proof (cases s rule: rev_cases)
  case Nil
  then show ?thesis by (simp add: endsWith_def)
next
  case (snoc ys y)
  then show ?thesis by (auto simp: endsWith_def)
qed

lemma hasDoubleSlash_append:
  "hasDoubleSlash (x @ y) \<longleftrightarrow>
     hasDoubleSlash x \<or> hasDoubleSlash y \<or> (x \<noteq> [] \<and> y \<noteq> [] \<and> last x = CHR ''/'' \<and> hd y = CHR ''/'')"
proof (induction x rule: hasDoubleSlash.induct)
  case (1 a b r)
  then show ?case by auto
next
  case "2_1"
  then show ?case by simp
next
  case "2_2"
  then show ?case by (cases y) auto
qed

lemma hasDoubleSlash_butlast: "\<not> hasDoubleSlash a \<Longrightarrow> \<not> hasDoubleSlash (butlast a)"
proof (cases a rule: rev_cases)
  case Nil
  then show ?thesis by simp
next
  case (snoc ys y)
  assume "\<not> hasDoubleSlash a"
  with snoc show ?thesis by (simp add: hasDoubleSlash_append)
qed

lemma joinPaths_rooted:
  assumes a: "rooted a" and b: "\<not> hasDoubleSlash b"
  shows "rooted (joinPaths a b) \<and> startsWith (joinPaths a b) ''/''"
proof -
  define left where "left = (if endsWith a ''/'' then slice a 0 (- 1) else a)"
  define right where "right = (if startsWith b ''/'' then b else ''/'' @ b)"
  have j: "joinPaths a b = left @ right"
    by (simp add: joinPaths_def left_def right_def Let_def)
  have r1: "right \<noteq> []" "hd right = CHR ''/''"
    by (auto simp: right_def startsWith_slash)
  have r2: "\<not> hasDoubleSlash right"
  proof (cases "startsWith b ''/''")
    case True
    with b show ?thesis by (simp add: right_def)
  next
    case False
    with b show ?thesis by (cases b) (auto simp: right_def startsWith_slash)
  qed
  have l1: "\<not> hasDoubleSlash left"
    using a by (auto simp: left_def rooted_def slice_butlast hasDoubleSlash_butlast)
  have l2: "left = [] \<or> last left \<noteq> CHR ''/''"
  proof (cases "endsWith a ''/''")
    case False
    then show ?thesis by (auto simp: left_def endsWith_slash)
  next
    case True
    then obtain ys where ys: "a = ys @ ''/''"
      by (cases a rule: rev_cases) (auto simp: endsWith_slash)
    with True have "left = ys" by (simp add: left_def slice_butlast)
    moreover from a ys have "ys = [] \<or> last ys \<noteq> CHR ''/''"
      by (auto simp: rooted_def hasDoubleSlash_append)
    ultimately show ?thesis by simp
  qed
  have l3: "left = [] \<or> hd left = CHR ''/''"
  proof (cases "endsWith a ''/''")
    case False
    with a show ?thesis by (auto simp: left_def rooted_def)
  next
    case True
    then obtain ys where ys: "a = ys @ ''/''"
      by (cases a rule: rev_cases) (auto simp: endsWith_slash)
    with True have "left = ys" by (simp add: left_def slice_butlast)
    moreover from a ys have "ys = [] \<or> hd ys = CHR ''/''"
      by (cases ys) (auto simp: rooted_def)
    ultimately show ?thesis by simp
  qed
  from l1 l2 r1 r2 have "\<not> hasDoubleSlash (left @ right)"
    by (auto simp: hasDoubleSlash_append)
  moreover from l3 r1 have "left @ right \<noteq> [] \<and> hd (left @ right) = CHR ''/''"
    by (cases left) auto
  ultimately show ?thesis by (simp add: j rooted_def startsWith_slash)
qed

lemma foldl_joinPaths_rooted:
  "rooted p \<Longrightarrow> \<forall>s \<in> set segs. \<not> hasDoubleSlash s \<Longrightarrow> rooted (foldl joinPaths p segs)"
  by (induction segs arbitrary: p) (auto simp: joinPaths_rooted)

lemma foldl_joinPaths_slash:
  "rooted p \<Longrightarrow> \<forall>s \<in> set segs. \<not> hasDoubleSlash s \<Longrightarrow> segs \<noteq> [] \<Longrightarrow>
     startsWith (foldl joinPaths p segs) ''/''"
proof (induction segs arbitrary: p rule: rev_induct)
  case Nil
  then show ?case by simp
next
  case (snoc s segs)
  then have "rooted (foldl joinPaths p segs)" by (simp add: foldl_joinPaths_rooted)
  with snoc.prems show ?case by (simp add: joinPaths_rooted)
qed

lemma splitOn_nonempty: "splitOn d s \<noteq> []"
  by (induction s) (auto split: list.splits)

lemma splitOn_append:
  "splitOn d (x @ d # y) = splitOn d x @ splitOn d y"
proof (induction x)
  case Nil
  then show ?case by simp
next
  case (Cons a x)
  then show ?case using splitOn_nonempty[of d x] by (cases "splitOn d x") auto
qed

lemma pathSegments_append: "pathSegments (x @ CHR ''/'' # y) = pathSegments x @ pathSegments y"
  by (simp add: pathSegments_def splitOn_append)

lemma pathSegments_joinPaths: "pathSegments (joinPaths a b) = pathSegments a @ pathSegments b"
proof -
  define left where "left = (if endsWith a ''/'' then slice a 0 (- 1) else a)"
  define right where "right = (if startsWith b ''/'' then b else ''/'' @ b)"
  have j: "joinPaths a b = left @ right"
    by (simp add: joinPaths_def left_def right_def Let_def)
  have l: "pathSegments left = pathSegments a"
  proof (cases "endsWith a ''/''")
    case False
    then show ?thesis by (simp add: left_def)
  next
    case True
    then obtain ys where ys: "a = ys @ ''/''"
      by (cases a rule: rev_cases) (auto simp: endsWith_slash)
    with True have "left = ys" by (simp add: left_def slice_butlast)
    moreover have "pathSegments (ys @ ''/'') = pathSegments ys"
      using pathSegments_append[of ys "[]"] by (simp add: pathSegments_def)
    ultimately show ?thesis using ys by simp
  qed
  have r: "\<exists>b'. right = CHR ''/'' # b' \<and> pathSegments b' = pathSegments b"
  proof (cases "startsWith b ''/''")
    case False
    then show ?thesis by (simp add: right_def)
  next
    case True
    then obtain b' where b': "b = CHR ''/'' # b'" by (cases b) (auto simp: startsWith_slash)
    have "pathSegments (CHR ''/'' # b') = pathSegments b'"
      using pathSegments_append[of "[]" b'] by (simp add: pathSegments_def)
    with True b' show ?thesis by (simp add: right_def)
  qed
  then obtain b' where "right = CHR ''/'' # b'" "pathSegments b' = pathSegments b" by blast
  with l show ?thesis by (simp add: j pathSegments_append)
qed

lemma pathSegments_foldl:
  "pathSegments (foldl joinPaths p segs) = pathSegments p @ concat (map pathSegments segs)"
  by (induction segs arbitrary: p) (auto simp: pathSegments_joinPaths)

lemma groupStep_cases:
  "groupStep (m, u) d = (if solved m d then (m, u)
                         else (m(fst d \<mapsto> joinPaths (prefixOf m (fst (snd d))) (snd (snd d))), True))"
  by (cases d) (auto simp: groupStep_def Let_def solved_def prefixOf_def)

lemma pass_flag_True: "snd (foldl groupStep (m, True) ds) = True"
  by (induction ds arbitrary: m) (auto simp: groupStep_cases)

lemma pass_no_update:
  "foldl groupStep (m, u) ds = (m', False) \<Longrightarrow> u = False \<and> m' = m \<and> (\<forall>d \<in> set ds. solved m d)"
proof (induction ds arbitrary: m u)
  case Nil
  then show ?case by simp
next
  case (Cons d ds)
  show ?case
  proof (cases "solved m d")
    case True
    with Cons.prems have "foldl groupStep (m, u) ds = (m', False)" by (simp add: groupStep_cases)
    from Cons.IH[OF this] True show ?thesis by simp
  next
    case False
    with Cons.prems have "snd (foldl groupStep (m(fst d \<mapsto> joinPaths (prefixOf m (fst (snd d))) (snd (snd d))), True) ds) = False"
      by (simp add: groupStep_cases)
    with pass_flag_True show ?thesis by simp
  qed
qed

lemma pass_solved:
  "\<forall>d \<in> set ds. solved m d \<Longrightarrow> foldl groupStep (m, u) ds = (m, u)"
  by (induction ds) (auto simp: groupStep_cases)

lemma pass_keeps:
  "x \<notin> fst ` set ds \<Longrightarrow> fst (foldl groupStep (m, u) ds) x = m x"
  by (induction ds arbitrary: m u) (auto simp: groupStep_cases)

lemma groupLoop_result:
  assumes a: "groupLoop t mp = Some y"
  shows "(\<forall>d \<in> set (groupDecls t). solved y d) \<and> (\<forall>x. x \<notin> fst ` set (groupDecls t) \<longrightarrow> y x = mp x)"
proof (rule groupLoop.raw_induct[where P = "\<lambda>t mp y. (\<forall>d \<in> set (groupDecls t). solved y d) \<and> (\<forall>x. x \<notin> fst ` set (groupDecls t) \<longrightarrow> y x = mp x)", OF _ a])
  fix loop :: "string \<Rightarrow> prefixMap \<Rightarrow> prefixMap option" and t mp y
  assume ih: "\<And>t mp y. loop t mp = Some y \<Longrightarrow>
                (\<forall>d \<in> set (groupDecls t). solved y d) \<and> (\<forall>x. x \<notin> fst ` set (groupDecls t) \<longrightarrow> y x = mp x)"
    and eq: "(case foldl groupStep (mp, False) (groupDecls t) of
                (mp', updated) \<Rightarrow> if updated then loop t mp' else Some mp') = Some y"
  obtain mp' u where f: "foldl groupStep (mp, False) (groupDecls t) = (mp', u)"
    by (cases "foldl groupStep (mp, False) (groupDecls t)") auto
  have k: "\<And>x. x \<notin> fst ` set (groupDecls t) \<Longrightarrow> mp' x = mp x"
    using pass_keeps[of _ "groupDecls t" mp False] f by simp
  show "(\<forall>d \<in> set (groupDecls t). solved y d) \<and> (\<forall>x. x \<notin> fst ` set (groupDecls t) \<longrightarrow> y x = mp x)"
  proof (cases u)
    case True
    with f eq have "loop t mp' = Some y" by simp
    from ih[OF this] k show ?thesis by simp
  next
    case False
    with f eq have y: "y = mp'" by simp
    from f False have "foldl groupStep (mp, False) (groupDecls t) = (mp', False)" by simp
    from pass_no_update[OF this] y show ?thesis by simp
  qed
qed

lemma chain_solved:
  assumes "\<forall>d \<in> set (chainDecls root decls). solved m d" and "m root = Some p"
  shows "\<forall>k < length decls. m (fst (decls ! k)) = Some (foldl joinPaths p (map snd (take (Suc k) decls)))"
  using assms
proof (induction decls arbitrary: root p)
  case Nil
  then show ?case by simp
next
  case (Cons d rest)
  obtain v s where d: "d = (v, s)" by (cases d)
  from Cons.prems have mv: "m v = Some (joinPaths p s)"
    by (simp add: d solved_def prefixOf_def)
  from Cons.prems have "\<forall>d \<in> set (chainDecls v rest). solved m d" by (simp add: d)
  from Cons.IH[OF this mv] have
    ih: "\<forall>k < length rest. m (fst (rest ! k)) = Some (foldl joinPaths (joinPaths p s) (map snd (take (Suc k) rest)))" .
  show ?case
  proof (intro allI impI)
    fix k assume k: "k < length (d # rest)"
    show "m (fst ((d # rest) ! k)) = Some (foldl joinPaths p (map snd (take (Suc k) (d # rest))))"
    proof (cases k)
      case 0
      with mv show ?thesis by (simp add: d)
    next
      case (Suc k')
      with k ih show ?thesis by (simp add: d)
    qed
  qed
qed

lemma ranked_base:
  assumes "ranked rk D" and "d \<in> set D" and "rk (fst d) \<le> n"
    and "\<forall>x. (x \<notin> fst ` set D \<or> rk x < n) \<longrightarrow> m x = mp x"
  shows "prefixOf m (fst (snd d)) = prefixOf mp (fst (snd d))"
proof -
  from assms(1,2) have "fst (snd d) \<in> fst ` set D \<longrightarrow> rk (fst (snd d)) < rk (fst d)"
    by (auto simp: ranked_def list_all_iff)
  with assms(3) have "fst (snd d) \<notin> fst ` set D \<or> rk (fst (snd d)) < n" by auto
  with assms(4) show ?thesis by (simp add: prefixOf_def)
qed

lemma pass_rank:
  assumes "distinct (map fst ds)" and "set ds \<subseteq> set D" and "ranked rk D"
    and "\<forall>d \<in> set D. rk (fst d) < n \<longrightarrow> solved mp d"
    and "\<forall>x. (x \<notin> fst ` set D \<or> rk x < n) \<longrightarrow> m x = mp x"
  shows "(\<forall>x. (x \<notin> fst ` set D \<or> rk x < n) \<longrightarrow> fst (foldl groupStep (m, u) ds) x = mp x) \<and>
         (\<forall>d \<in> set ds. rk (fst d) = n \<longrightarrow>
             fst (foldl groupStep (m, u) ds) (fst d)
               = Some (joinPaths (prefixOf mp (fst (snd d))) (snd (snd d))))"
  using assms(1,2,5)
proof (induction ds arbitrary: m u)
  case Nil
  then show ?case by simp
next
  case (Cons d ds)
  define full where "full = joinPaths (prefixOf mp (fst (snd d))) (snd (snd d))"
  define st where "st = groupStep (m, u) d"
  define m1 where "m1 = fst st"
  define u1 where "u1 = snd st"
  have st: "groupStep (m, u) d = (m1, u1)" by (simp add: m1_def u1_def st_def)
  from Cons.prems have dD: "d \<in> set D" and cD: "fst d \<in> fst ` set D" by auto
  have agree1: "\<forall>x. (x \<notin> fst ` set D \<or> rk x < n) \<longrightarrow> m1 x = mp x"
  proof (cases "rk (fst d) < n")
    case True
    then have le: "rk (fst d) \<le> n" by simp
    from ranked_base[OF assms(3) dD le Cons.prems(3)]
    have b: "prefixOf m (fst (snd d)) = prefixOf mp (fst (snd d))" .
    from True assms(4) dD have "solved mp d" by blast
    moreover from True Cons.prems(3) have "m (fst d) = mp (fst d)" by blast
    ultimately have "solved m d" using b by (simp add: solved_def)
    then have "m1 = m" using st by (simp add: groupStep_cases)
    with Cons.prems(3) show ?thesis by simp
  next
    case False
    have "m1 = m \<or> m1 = m(fst d \<mapsto> joinPaths (prefixOf m (fst (snd d))) (snd (snd d)))"
      using st by (auto simp: groupStep_cases split: if_splits)
    moreover have "\<And>x. x \<notin> fst ` set D \<or> rk x < n \<Longrightarrow> x \<noteq> fst d"
      using False cD by blast
    ultimately have "\<And>x. x \<notin> fst ` set D \<or> rk x < n \<Longrightarrow> m1 x = m x"
      by (metis fun_upd_other)
    with Cons.prems(3) show ?thesis by simp
  qed
  from Cons.prems have dist: "distinct (map fst ds)" and sub: "set ds \<subseteq> set D"
    and notin: "fst d \<notin> fst ` set ds" by auto
  note ih = Cons.IH[OF dist sub agree1, of u1]
  have f: "foldl groupStep (m, u) (d # ds) = foldl groupStep (m1, u1) ds" by (simp add: st)
  have here: "rk (fst d) = n \<Longrightarrow> fst (foldl groupStep (m1, u1) ds) (fst d) = Some full"
  proof -
    assume eq: "rk (fst d) = n"
    then have le: "rk (fst d) \<le> n" by simp
    from ranked_base[OF assms(3) dD le Cons.prems(3)]
    have b: "prefixOf m (fst (snd d)) = prefixOf mp (fst (snd d))" .
    have "m1 (fst d) = Some full"
      using st b by (auto simp: groupStep_cases solved_def full_def split: if_splits)
    with pass_keeps[OF notin, of m1 u1] show ?thesis by simp
  qed
  from ih here show ?case unfolding f full_def by auto
qed

lemma pass_next:
  assumes dist: "distinct (map fst D)" and rk: "ranked rk D"
    and pn: "\<forall>d \<in> set D. rk (fst d) < n \<longrightarrow> solved mp d"
  shows "\<forall>d \<in> set D. rk (fst d) < Suc n \<longrightarrow> solved (fst (foldl groupStep (mp, u) D)) d"
proof (intro ballI impI)
  fix d assume d: "d \<in> set D" and r: "rk (fst d) < Suc n"
  let ?m = "fst (foldl groupStep (mp, u) D)"
  have ag0: "\<forall>x. (x \<notin> fst ` set D \<or> rk x < n) \<longrightarrow> mp x = mp x" by simp
  from pass_rank[OF dist subset_refl rk pn ag0, of u]
  have ag: "\<forall>x. (x \<notin> fst ` set D \<or> rk x < n) \<longrightarrow> ?m x = mp x"
    and eqn: "\<forall>d \<in> set D. rk (fst d) = n \<longrightarrow> ?m (fst d) = Some (joinPaths (prefixOf mp (fst (snd d))) (snd (snd d)))"
    by blast+
  from r have le: "rk (fst d) \<le> n" by simp
  from ranked_base[OF rk d le ag] have b: "prefixOf ?m (fst (snd d)) = prefixOf mp (fst (snd d))" .
  show "solved ?m d"
  proof (cases "rk (fst d) < n")
    case True
    with pn d have "solved mp d" by blast
    moreover from True ag have "?m (fst d) = mp (fst d)" by blast
    ultimately show ?thesis using b by (simp add: solved_def)
  next
    case False
    with r have "rk (fst d) = n" by simp
    with eqn d b show ?thesis by (simp add: solved_def)
  qed
qed

lemma groupLoop_stops:
  assumes dist: "distinct (map fst (groupDecls t))" and rk: "ranked rk (groupDecls t)"
    and bound: "\<forall>d \<in> set (groupDecls t). rk (fst d) < N"
    and pn: "\<forall>d \<in> set (groupDecls t). rk (fst d) < n \<longrightarrow> solved mp d"
  shows "groupLoop t mp \<noteq> None"
  using pn
proof (induction "N - n" arbitrary: n mp)
  case 0
  then have "N \<le> n" by simp
  with bound "0.prems" have "\<forall>d \<in> set (groupDecls t). solved mp d" by fastforce
  from pass_solved[OF this, of False] show ?case by (subst groupLoop.simps) simp
next
  case (Suc j)
  obtain mp' u where f: "foldl groupStep (mp, False) (groupDecls t) = (mp', u)"
    by (cases "foldl groupStep (mp, False) (groupDecls t)") auto
  show ?case
  proof (cases u)
    case False
    with f show ?thesis by (subst groupLoop.simps) simp
  next
    case True
    from pass_next[OF dist rk Suc.prems, of False] f
    have "\<forall>d \<in> set (groupDecls t). rk (fst d) < Suc n \<longrightarrow> solved mp' d" by simp
    moreover from Suc.hyps(2) have "j = N - Suc n" by simp
    ultimately have "groupLoop t mp' \<noteq> None" by (rule Suc.hyps(1)[rotated])
    with f True show ?thesis by (subst groupLoop.simps) simp
  qed
qed

lemma groupLoop_total:
  assumes "singleAssigned (groupDecls t)" and "ranked rk (groupDecls t)"
  shows "groupLoop t mp \<noteq> None"
proof -
  define N where "N = Suc (sum_list (map (\<lambda>d. rk (fst d)) (groupDecls t)))"
  have "\<forall>d \<in> set (groupDecls t). rk (fst d) < N"
  proof
    fix d assume "d \<in> set (groupDecls t)"
    then have "rk (fst d) \<in> set (map (\<lambda>d. rk (fst d)) (groupDecls t))" by auto
    from member_le_sum_list[OF this] show "rk (fst d) < N" by (simp add: N_def)
  qed
  from groupLoop_stops[OF _ assms(2) this, of 0 mp] assms(1) show ?thesis
    by (simp add: singleAssigned_def)
qed

lemma joinPaths_leading:
  assumes "a = [] \<or> hd a = CHR ''/''"
  shows "startsWith (joinPaths a b) ''/''"
proof -
  define left where "left = (if endsWith a ''/'' then slice a 0 (- 1) else a)"
  define right where "right = (if startsWith b ''/'' then b else ''/'' @ b)"
  have j: "joinPaths a b = left @ right"
    by (simp add: joinPaths_def left_def right_def Let_def)
  have r1: "right \<noteq> []" "hd right = CHR ''/''"
    by (auto simp: right_def startsWith_slash)
  have l: "left = [] \<or> hd left = CHR ''/''"
  proof (cases "endsWith a ''/''")
    case False
    with assms show ?thesis by (simp add: left_def)
  next
    case True
    then obtain ys where ys: "a = ys @ ''/''"
      by (cases a rule: rev_cases) (auto simp: endsWith_slash)
    with True have "left = ys" by (simp add: left_def slice_butlast)
    moreover from assms ys have "ys = [] \<or> hd ys = CHR ''/''" by (cases ys) auto
    ultimately show ?thesis by simp
  qed
  with r1 have "left @ right \<noteq> [] \<and> hd (left @ right) = CHR ''/''" by (cases left) auto
  then show ?thesis by (simp add: j startsWith_slash)
qed

lemma foldl_joinPaths_leading:
  "segs \<noteq> [] \<Longrightarrow> startsWith (foldl joinPaths [] segs) ''/''"
proof (induction segs rule: rev_induct)
  case Nil
  then show ?case by simp
next
  case (snoc s segs)
  have "foldl joinPaths [] segs = [] \<or> hd (foldl joinPaths [] segs) = CHR ''/''"
  proof (cases "segs = []")
    case True
    then show ?thesis by simp
  next
    case False
    from snoc.IH[OF this] show ?thesis by (simp add: startsWith_slash)
  qed
  from joinPaths_leading[OF this] show ?case by simp
qed

text \<open>
  C3, amended. Take any text and any chain of nested \<open>.Group\<close> declarations among its
  declarations, wherever and in whatever order they stand, rooted at a known router
  variable that is not itself assigned from a \<open>.Group\<close> call. Whenever building the
  prefix map returns, the prefix of the \<open>k\<close>-th group is the fold of \<open>joinPaths\<close> over the
  first \<open>k\<close> literals: its path segments are the segments of the literals in declaration
  order, and it starts with a slash, as does the path of every route registered on
  that group. If none of these literals holds two consecutive slashes, the prefix holds
  no double slash, and neither does the path of a route registered on the group with a
  local path free of double slashes. Building the map does return when every group
  variable of the text is assigned from one \<open>.Group\<close> call only and no group is derived
  from itself (C2 shows texts on which it does not).
\<close>

theorem group_chain_prefix:
  assumes ch: "set (chainDecls root decls) \<subseteq> set (groupDecls t)"
    and r: "rootMap t alias root = Some []"
    and nr: "root \<notin> fst ` set (groupDecls t)"
    and k: "k < length decls"
  shows "(\<forall>m. buildGroupPrefixMap t alias = Some m \<longrightarrow>
            (let segsk = map snd (take (Suc k) decls); P = foldl joinPaths [] segsk
             in m (fst (decls ! k)) = Some P \<and>
                pathSegments P = concat (map pathSegments segsk) \<and>
                startsWith P ''/'' \<and>
                (\<forall>rel file rm meth hn.
                   (let rp = path (mkRoute m file rm (fst (decls ! k)) meth rel hn)
                    in rp = joinPaths P rel \<and>
                       pathSegments rp = pathSegments P @ pathSegments rel \<and>
                       startsWith rp ''/'')) \<and>
                ((\<forall>s \<in> set segsk. \<not> hasDoubleSlash s) \<longrightarrow>
                   \<not> hasDoubleSlash P \<and>
                   (\<forall>rel file rm meth hn. \<not> hasDoubleSlash rel \<longrightarrow>
                      \<not> hasDoubleSlash (path (mkRoute m file rm (fst (decls ! k)) meth rel hn)))))) \<and>
         (singleAssigned (groupDecls t) \<and> ranked rk (groupDecls t)
            \<longrightarrow> buildGroupPrefixMap t alias \<noteq> None)"
proof -
  define segsk where "segsk = map snd (take (Suc k) decls)"
  define P where "P = foldl joinPaths [] segsk"
  have ne: "segsk \<noteq> []" using k by (cases decls) (auto simp: segsk_def)
  have sl: "startsWith P ''/''" unfolding P_def by (rule foldl_joinPaths_leading[OF ne])
  then have pne: "P \<noteq> []" and hdP: "P = [] \<or> hd P = CHR ''/''" by (simp_all add: startsWith_slash)
  have ps: "pathSegments P = concat (map pathSegments segsk)"
  proof -
    have "pathSegments [] = []" by (simp add: pathSegments_def)
    then show ?thesis unfolding P_def by (simp add: pathSegments_foldl)
  qed
  have part1: "m (fst (decls ! k)) = Some P \<and>
        (\<forall>rel file rm meth hn.
           (let rp = path (mkRoute m file rm (fst (decls ! k)) meth rel hn)
            in rp = joinPaths P rel \<and> pathSegments rp = pathSegments P @ pathSegments rel \<and>
               startsWith rp ''/'')) \<and>
        ((\<forall>s \<in> set segsk. \<not> hasDoubleSlash s) \<longrightarrow>
           \<not> hasDoubleSlash P \<and>
           (\<forall>rel file rm meth hn. \<not> hasDoubleSlash rel \<longrightarrow>
              \<not> hasDoubleSlash (path (mkRoute m file rm (fst (decls ! k)) meth rel hn))))"
    if m: "buildGroupPrefixMap t alias = Some m" for m
  proof -
    from m have g: "groupLoop t (rootMap t alias) = Some m" by (simp add: buildGroupPrefixMap_def)
    from groupLoop_result[OF g] nr r have sol: "\<forall>d \<in> set (groupDecls t). solved m d"
      and mr: "m root = Some []" by auto
    from sol ch have "\<forall>d \<in> set (chainDecls root decls). solved m d" by blast
    from chain_solved[OF this mr] k have mk: "m (fst (decls ! k)) = Some P"
      by (simp add: P_def segsk_def)
    have rt: "\<And>rel file rm meth hn. path (mkRoute m file rm (fst (decls ! k)) meth rel hn) = joinPaths P rel"
      using mk by (simp add: mkRoute_def Let_def orElse_def)
    have a: "\<forall>rel file rm meth hn.
           (let rp = path (mkRoute m file rm (fst (decls ! k)) meth rel hn)
            in rp = joinPaths P rel \<and> pathSegments rp = pathSegments P @ pathSegments rel \<and>
               startsWith rp ''/'')"
      using joinPaths_leading[OF hdP] by (simp add: rt Let_def pathSegments_joinPaths)
    have b: "\<not> hasDoubleSlash P \<and>
           (\<forall>rel file rm meth hn. \<not> hasDoubleSlash rel \<longrightarrow>
              \<not> hasDoubleSlash (path (mkRoute m file rm (fst (decls ! k)) meth rel hn)))"
      if nds: "\<forall>s \<in> set segsk. \<not> hasDoubleSlash s"
    proof -
      have r0: "rooted []" by (simp add: rooted_def)
      have rp: "rooted P" unfolding P_def by (rule foldl_joinPaths_rooted[OF r0 nds])
      from joinPaths_rooted[OF rp] rp show ?thesis by (simp add: rt rooted_def)
    qed
    from mk a b show ?thesis by blast
  qed
  have part2: "buildGroupPrefixMap t alias \<noteq> None"
    if "singleAssigned (groupDecls t)" "ranked rk (groupDecls t)"
    unfolding buildGroupPrefixMap_def by (rule groupLoop_total[OF that])
  from part1 ps sl part2 show ?thesis
    unfolding Let_def P_def[symmetric] segsk_def[symmetric] by blast
qed

theorem group_chain_prefix_witness:
  "groupDecls ''r := gin.New()\<newline>u := v.Group(\"users/\")\<newline>v := a.Group(\"v1\")\<newline>a := r.Group(\"/api/\")\<newline>p := v.Group(\"/posts\")''
      = [(''u'', ''v'', ''users/''), (''v'', ''a'', ''v1''), (''a'', ''r'', ''/api/''), (''p'', ''v'', ''/posts'')] \<and>
   chainDecls ''r'' [(''a'', ''/api/''), (''v'', ''v1''), (''u'', ''users/'')]
      = [(''a'', ''r'', ''/api/''), (''v'', ''a'', ''v1''), (''u'', ''v'', ''users/'')] \<and>
   rootMap ''r := gin.New()\<newline>u := v.Group(\"users/\")\<newline>v := a.Group(\"v1\")\<newline>a := r.Group(\"/api/\")\<newline>p := v.Group(\"/posts\")'' ''gin'' ''r'' = Some [] \<and>
   (\<exists>m. buildGroupPrefixMap ''r := gin.New()\<newline>u := v.Group(\"users/\")\<newline>v := a.Group(\"v1\")\<newline>a := r.Group(\"/api/\")\<newline>p := v.Group(\"/posts\")'' ''gin'' = Some m \<and>
        m ''u'' = Some ''/api/v1/users/'' \<and>
        path (mkRoute m ''f.go'' (RMatch 0 0 Map.empty) ''u'' ''GET'' ''list'' ''H'') = ''/api/v1/users/list'' \<and>
        \<not> hasDoubleSlash (path (mkRoute m ''f.go'' (RMatch 0 0 Map.empty) ''u'' ''GET'' ''list'' ''H'')))"
proof -
  let ?t = "''r := gin.New()\<newline>u := v.Group(\"users/\")\<newline>v := a.Group(\"v1\")\<newline>a := r.Group(\"/api/\")\<newline>p := v.Group(\"/posts\")''"
  let ?d = "[(''a'', ''/api/''), (''v'', ''v1''), (''u'', ''users/'')]"
  let ?rk = "\<lambda>x. if x = ''a'' then 0 else if x = ''v'' then 1 else (2::nat)"
  have h0: "groupDecls ?t
      = [(''u'', ''v'', ''users/''), (''v'', ''a'', ''v1''), (''a'', ''r'', ''/api/''), (''p'', ''v'', ''/posts'')]"
    by code_simp
  have c0: "chainDecls ''r'' ?d = [(''a'', ''r'', ''/api/''), (''v'', ''a'', ''v1''), (''u'', ''v'', ''users/'')]"
    by simp
  have h1: "set (chainDecls ''r'' ?d) \<subseteq> set (groupDecls ?t)" unfolding h0 c0 by simp
  have h2: "rootMap ?t ''gin'' ''r'' = Some []" by code_simp
  have h3: "''r'' \<notin> fst ` set (groupDecls ?t)" unfolding h0 by simp
  have h4: "(2::nat) < length ?d" by simp
  have h5: "singleAssigned (groupDecls ?t)" unfolding h0 by (simp add: singleAssigned_def)
  have h6: "ranked ?rk (groupDecls ?t)" unfolding h0 by (simp add: ranked_def)
  have h7: "\<forall>s \<in> set (map snd (take (Suc 2) ?d)). \<not> hasDoubleSlash s" by simp
  have h8: "\<not> hasDoubleSlash ''list''" by simp
  have j: "foldl joinPaths [] (map snd (take (Suc 2) ?d)) = ''/api/v1/users/''" by code_simp
  have j2: "joinPaths ''/api/v1/users/'' ''list'' = ''/api/v1/users/list''" by code_simp
  note th = group_chain_prefix[OF h1 h2 h3 h4, of ?rk]
  from th have tot: "singleAssigned (groupDecls ?t) \<and> ranked ?rk (groupDecls ?t)
      \<longrightarrow> buildGroupPrefixMap ?t ''gin'' \<noteq> None" by (rule conjunct2)
  from mp[OF tot conjI[OF h5 h6]] obtain m where m: "buildGroupPrefixMap ?t ''gin'' = Some m"
    by blast
  from th have "\<forall>m. buildGroupPrefixMap ?t ''gin'' = Some m \<longrightarrow>
            (let segsk = map snd (take (Suc 2) ?d); P = foldl joinPaths [] segsk
             in m (fst (?d ! 2)) = Some P \<and>
                pathSegments P = concat (map pathSegments segsk) \<and>
                startsWith P ''/'' \<and>
                (\<forall>rel file rm meth hn.
                   (let rp = path (mkRoute m file rm (fst (?d ! 2)) meth rel hn)
                    in rp = joinPaths P rel \<and>
                       pathSegments rp = pathSegments P @ pathSegments rel \<and>
                       startsWith rp ''/'')) \<and>
                ((\<forall>s \<in> set segsk. \<not> hasDoubleSlash s) \<longrightarrow>
                   \<not> hasDoubleSlash P \<and>
                   (\<forall>rel file rm meth hn. \<not> hasDoubleSlash rel \<longrightarrow>
                      \<not> hasDoubleSlash (path (mkRoute m file rm (fst (?d ! 2)) meth rel hn)))))"
    by (rule conjunct1)
  from this[rule_format, OF m, unfolded Let_def j]
  have a: "m (fst (?d ! 2)) = Some ''/api/v1/users/''"
    and b: "\<forall>rel file rm meth hn.
              path (mkRoute m file rm (fst (?d ! 2)) meth rel hn) = joinPaths ''/api/v1/users/'' rel \<and>
              pathSegments (path (mkRoute m file rm (fst (?d ! 2)) meth rel hn))
                 = pathSegments ''/api/v1/users/'' @ pathSegments rel \<and>
              startsWith (path (mkRoute m file rm (fst (?d ! 2)) meth rel hn)) ''/''"
    and c: "(\<forall>s \<in> set (map snd (take (Suc 2) ?d)). \<not> hasDoubleSlash s) \<longrightarrow>
                   \<not> hasDoubleSlash ''/api/v1/users/'' \<and>
                   (\<forall>rel file rm meth hn. \<not> hasDoubleSlash rel \<longrightarrow>
                      \<not> hasDoubleSlash (path (mkRoute m file rm (fst (?d ! 2)) meth rel hn)))"
    by blast+
  have u: "fst (?d ! 2) = ''u''" by simp
  from a have a': "m ''u'' = Some ''/api/v1/users/''" unfolding u .
  from b[unfolded u, rule_format, of "''f.go''" "RMatch 0 0 Map.empty" "''GET''" "''list''" "''H''"] j2
  have b': "path (mkRoute m ''f.go'' (RMatch 0 0 Map.empty) ''u'' ''GET'' ''list'' ''H'') = ''/api/v1/users/list''"
    by simp
  from mp[OF c h7] h8
  have c': "\<not> hasDoubleSlash (path (mkRoute m ''f.go'' (RMatch 0 0 Map.empty) ''u'' ''GET'' ''list'' ''H''))"
    unfolding u by blast
  from h0 c0 h2 m a' b' c' show ?thesis by blast
qed

text \<open>
  C3 as stated fails: \<open>joinPaths\<close> strips one trailing slash of the prefix and adds a
  leading slash only when there is none, so a literal that is written with two slashes
  keeps them.
\<close>

theorem group_double_slash_counterexample:
  "groupDecls ''r := gin.New()\<newline>g := r.Group(\"/api//\")\<newline>g.GET(\"/x\", H)''
      = chainDecls ''r'' [(''g'', ''/api//'')] \<and>
   rootMap ''r := gin.New()\<newline>g := r.Group(\"/api//\")\<newline>g.GET(\"/x\", H)'' ''gin'' ''r'' = Some [] \<and>
   map_option (map path)
     (findRoutesInTextByNames ''r := gin.New()\<newline>g := r.Group(\"/api//\")\<newline>g.GET(\"/x\", H)'' ''f.go'' {''H''})
      = Some [''/api//x''] \<and>
   hasDoubleSlash ''/api//x''"
  by code_simp

section \<open>Sample values\<close>

lemma trim_length: "length (trim s) \<le> length s"
proof -
  have "length (trim s) \<le> length (dropWhile isSpace s)"
    unfolding trim_def using length_dropWhile_le[of isSpace "rev (dropWhile isSpace s)"] by simp
  also have "\<dots> \<le> length s" by (rule length_dropWhile_le)
  finally show ?thesis .
qed

lemma startsWith_drop_shorter:
  "startsWith (trim s) pre \<Longrightarrow> pre \<noteq> [] \<Longrightarrow> length (drop (length pre) (trim s)) < length s"
proof -
  assume a: "startsWith (trim s) pre" and b: "pre \<noteq> []"
  have "length (take (length pre) (trim s)) \<le> length (trim s)" by simp
  with a have "length pre \<le> length (trim s)" by (simp add: startsWith_def)
  with b have "length (drop (length pre) (trim s)) < length (trim s)" by (cases pre) auto
  with trim_length[of s] show ?thesis by simp
qed

text \<open>
  C9. \<open>sampleValueForGoType\<close> returns a value for every declared-type string and field
  name. A type that starts (after trimming) with \<open>*\<close> or with \<open>[]\<close> is handled by a
  call on the rest, which is strictly shorter than the type; every other type gets the
  value \<open>leafSample\<close>, which makes no call.
\<close>

theorem sampleValueForGoType_returns:
  "(\<exists>v. sampleValueForGoType now goTy fieldName = Some v) \<and>
   (startsWith (trim goTy) ''*'' \<longrightarrow>
      length (drop 1 (trim goTy)) < length goTy \<and>
      sampleValueForGoType now goTy fieldName = sampleValueForGoType now (drop 1 (trim goTy)) fieldName) \<and>
   (\<not> startsWith (trim goTy) ''*'' \<and> startsWith (trim goTy) ''[]'' \<longrightarrow>
      length (drop 2 (trim goTy)) < length goTy \<and>
      (\<exists>v. sampleValueForGoType now (drop 2 (trim goTy)) fieldName = Some v \<and>
           sampleValueForGoType now goTy fieldName = Some (JArray [v]))) \<and>
   (\<not> startsWith (trim goTy) ''*'' \<and> \<not> startsWith (trim goTy) ''[]'' \<longrightarrow>
      sampleValueForGoType now goTy fieldName = Some (leafSample now (trim goTy) fieldName))"
proof -
  have ret: "\<exists>v. sampleValueForGoType now g fieldName = Some v" for g
  proof (induction g rule: length_induct)
    case (1 g)
    show ?case
    proof (cases "startsWith (trim g) ''*''")
      case True
      from startsWith_drop_shorter[OF True] have "length (drop 1 (trim g)) < length g" by simp
      with 1 obtain v where "sampleValueForGoType now (drop 1 (trim g)) fieldName = Some v" by blast
      with True show ?thesis by (subst sampleValueForGoType.simps) (simp add: Let_def)
    next
      case False
      show ?thesis
      proof (cases "startsWith (trim g) ''[]''")
        case True
        from startsWith_drop_shorter[OF True] have "length (drop 2 (trim g)) < length g" by simp
        with 1 obtain v where "sampleValueForGoType now (drop 2 (trim g)) fieldName = Some v" by blast
        with True False show ?thesis by (subst sampleValueForGoType.simps) (simp add: Let_def)
      next
        case F2: False
        with False show ?thesis by (subst sampleValueForGoType.simps) (simp add: Let_def)
      qed
    qed
  qed
  have s1: "startsWith (trim goTy) ''*'' \<longrightarrow>
      length (drop 1 (trim goTy)) < length goTy \<and>
      sampleValueForGoType now goTy fieldName = sampleValueForGoType now (drop 1 (trim goTy)) fieldName"
  proof
    assume a: "startsWith (trim goTy) ''*''"
    from startsWith_drop_shorter[OF a] have "length (drop 1 (trim goTy)) < length goTy" by simp
    moreover from a have "sampleValueForGoType now goTy fieldName
        = sampleValueForGoType now (drop 1 (trim goTy)) fieldName"
      by (subst sampleValueForGoType.simps) (simp add: Let_def)
    ultimately show "length (drop 1 (trim goTy)) < length goTy \<and>
      sampleValueForGoType now goTy fieldName = sampleValueForGoType now (drop 1 (trim goTy)) fieldName"
      by simp
  qed
  have s2: "\<not> startsWith (trim goTy) ''*'' \<and> startsWith (trim goTy) ''[]'' \<longrightarrow>
      length (drop 2 (trim goTy)) < length goTy \<and>
      (\<exists>v. sampleValueForGoType now (drop 2 (trim goTy)) fieldName = Some v \<and>
           sampleValueForGoType now goTy fieldName = Some (JArray [v]))"
  proof
    assume a: "\<not> startsWith (trim goTy) ''*'' \<and> startsWith (trim goTy) ''[]''"
    then have b: "startsWith (trim goTy) ''[]''" by simp
    from startsWith_drop_shorter[OF b] have l: "length (drop 2 (trim goTy)) < length goTy" by simp
    from ret[of "drop 2 (trim goTy)"] obtain v where
      v: "sampleValueForGoType now (drop 2 (trim goTy)) fieldName = Some v" by blast
    with a have "sampleValueForGoType now goTy fieldName = Some (JArray [v])"
      by (subst sampleValueForGoType.simps) (simp add: Let_def)
    with l v show "length (drop 2 (trim goTy)) < length goTy \<and>
      (\<exists>v. sampleValueForGoType now (drop 2 (trim goTy)) fieldName = Some v \<and>
           sampleValueForGoType now goTy fieldName = Some (JArray [v]))" by blast
  qed
  have s3: "\<not> startsWith (trim goTy) ''*'' \<and> \<not> startsWith (trim goTy) ''[]'' \<longrightarrow>
      sampleValueForGoType now goTy fieldName = Some (leafSample now (trim goTy) fieldName)"
    by (subst sampleValueForGoType.simps) (simp add: Let_def)
  from ret[of goTy] s1 s2 s3 show ?thesis by blast
qed

theorem sampleValueForGoType_returns_witness:
  "startsWith (trim '' *int'') ''*'' \<and>
   sampleValueForGoType ''N'' '' *int'' ''age'' = sampleValueForGoType ''N'' ''int'' ''age'' \<and>
   startsWith (trim ''[]bool'') ''[]'' \<and>
   sampleValueForGoType ''N'' ''[]bool'' ''flags'' = Some (JArray [JBool False]) \<and>
   sampleValueForGoType ''N'' ''time.Time'' ''at'' = Some (JString ''N'')"
proof -
  have a: "startsWith (trim '' *int'') ''*''" by code_simp
  have d: "drop 1 (trim '' *int'') = ''int''" by code_simp
  have b: "\<not> startsWith (trim ''[]bool'') ''*'' \<and> startsWith (trim ''[]bool'') ''[]''" by code_simp
  have e: "drop 2 (trim ''[]bool'') = ''bool''" by code_simp
  have c: "\<not> startsWith (trim ''time.Time'') ''*'' \<and> \<not> startsWith (trim ''time.Time'') ''[]''" by code_simp
  have c': "\<not> startsWith (trim ''bool'') ''*'' \<and> \<not> startsWith (trim ''bool'') ''[]''" by code_simp
  have l1: "leafSample ''N'' (trim ''time.Time'') ''at'' = JString ''N''" by code_simp
  have l2: "leafSample ''N'' (trim ''bool'') ''flags'' = JBool False" by code_simp
  from sampleValueForGoType_returns[of "''N''" "'' *int''" "''age''"] a d
  have 1: "sampleValueForGoType ''N'' '' *int'' ''age'' = sampleValueForGoType ''N'' ''int'' ''age''"
    by simp
  from sampleValueForGoType_returns[of "''N''" "''bool''" "''flags''"] c' l2
  have 2: "sampleValueForGoType ''N'' ''bool'' ''flags'' = Some (JBool False)" by simp
  from sampleValueForGoType_returns[of "''N''" "''[]bool''" "''flags''"] b e 2
  have 3: "sampleValueForGoType ''N'' ''[]bool'' ''flags'' = Some (JArray [JBool False])" by auto
  from sampleValueForGoType_returns[of "''N''" "''time.Time''" "''at''"] c l1
  have 4: "sampleValueForGoType ''N'' ''time.Time'' ''at'' = Some (JString ''N'')" by simp
  from a b 1 3 4 show ?thesis by blast
qed

lemma sampleValueForGoType_example:
  "sampleValueForGoType ''N'' '' *[]*[]float64 '' ''x'' = Some (JArray [JArray [JNumber 0]])"
  by code_simp

section \<open>Body encoding\<close>

text \<open>
  A body that holds a JSON-bind call is matched by the JSON-bind pattern wherever the
  call stands: the search tries every position, the receiver is the context variable
  (any identifier when the handler has none), and blanks may precede the parenthesis.
\<close>

lemma search_finds:
  "matches r (if k = 0 then p else Some (s ! (k - 1))) (drop k s) Map.empty \<noteq> [] \<Longrightarrow> k \<le> length s
     \<Longrightarrow> search r p s i \<noteq> None"
proof (induction s arbitrary: p i k)
  case Nil
  then show ?case by (auto split: list.splits)
next
  case (Cons x xs)
  show ?case
  proof (cases "matches r p (x # xs) Map.empty")
    case (Cons st sts)
    then show ?thesis by simp
  next
    case Nil
    with Cons.prems obtain k' where k: "k = Suc k'" by (cases k) auto
    with Cons.prems have
      "matches r (if k' = 0 then Some x else Some (xs ! (k' - 1))) (drop k' xs) Map.empty \<noteq> []"
      by (cases k') auto
    with Cons.IH[of k' "Some x" "Suc i"] Cons.prems k have "search r (Some x) xs (Suc i) \<noteq> None"
      by auto
    with Nil show ?thesis by simp
  qed
qed

lemma test_contains:
  assumes "matches r (if pre = [] then None else Some (last pre)) rest Map.empty \<noteq> []"
  shows "test r (pre @ rest)"
proof -
  have "(if length pre = 0 then None else Some ((pre @ rest) ! (length pre - 1)))
          = (if pre = [] then None else Some (last pre))"
    by (cases pre rule: rev_cases) (auto simp: nth_append)
  with assms search_finds[of r "length pre" None "pre @ rest" 0]
  show ?thesis by (simp add: test_def exec_def)
qed

lemma matches_Seq_nonempty:
  "st \<in> set (matches r1 p s c) \<Longrightarrow> matches r2 (fst st) (fst (snd st)) (snd (snd st)) \<noteq> []
     \<Longrightarrow> matches (Seq r1 r2) p s c \<noteq> []"
  by auto

lemma star_skips:
  "list_all P sp \<Longrightarrow> \<exists>q. (q, rest, c) \<in> set (matches (Star (Cls P)) p (sp @ rest) c)"
proof (induction sp arbitrary: p)
  case Nil
  then show ?case by (cases rest) auto
next
  case (Cons a sp)
  then obtain q where "(q, rest, c) \<in> set (matches (Star (Cls P)) (Some a) (sp @ rest) c)" by auto
  with Cons.prems show ?case by (auto intro!: exI[of _ q])
qed

lemma matches_Seq_in:
  "(q1, s1, c1) \<in> set (matches r1 p s c) \<Longrightarrow> st \<in> set (matches r2 q1 s1 c1)
     \<Longrightarrow> st \<in> set (matches (Seq r1 r2) p s c)"
  by force

lemma matches_Str_in:
  "l \<noteq> [] \<Longrightarrow> (Some (last l), rest, c) \<in> set (matches (Str l) p (l @ rest) c)"
  by simp

lemma ident_in:
  assumes "isIdentifier recv"
  shows "\<exists>q. (q, rest, c) \<in> set (matches ident p (recv @ rest) c)"
proof -
  from assms obtain x xs where r: "recv = x # xs" "identStart x" "list_all isWordChar xs"
    by (cases recv) (auto simp: isIdentifier_def)
  from star_skips[OF r(3), of rest c "Some x"] obtain q where
    "(q, rest, c) \<in> set (matches (Star (Cls isWordChar)) (Some x) (xs @ rest) c)" by blast
  with r show ?thesis by (auto simp: ident_def intro!: exI[of _ q])
qed

lemma receiver_in:
  assumes "case ctxVar of Some v \<Rightarrow> v \<noteq> [] \<and> recv = v | None \<Rightarrow> isIdentifier recv"
  shows "\<exists>q. (q, rest, c) \<in> set (matches (cPattern ctxVar) p (recv @ rest) c)"
proof (cases ctxVar)
  case None
  with assms ident_in[of recv rest c p] show ?thesis by (simp add: cPattern_def)
next
  case (Some v)
  with assms matches_Str_in[of v rest c p] show ?thesis by (auto simp: cPattern_def)
qed

lemma jsonBind_call:
  assumes c: "(q, ''.'' @ call @ sp @ ''('' @ post, cs) \<in> set (matches c p s Map.empty)"
    and call: "call = ''BindJSON'' \<or> call = ''ShouldBindJSON''"
    and sp: "list_all isSpace sp"
  shows "matches (jsonBind c) p s Map.empty \<noteq> []"
proof -
  let ?g = "Grp 1 (alts [Str ''ShouldBindJSON'', Str ''BindJSON''])"
  let ?r3 = "''('' @ post"
  let ?r2 = "sp @ ?r3"
  let ?r1 = "call @ ?r2"
  have 1: "(Some CHR ''.'', ?r1, cs) \<in> set (matches (Str ''.'') q (''.'' @ ?r1) cs)"
    by simp
  from call obtain cs' where 2: "(Some CHR ''N'', ?r2, cs') \<in> set (matches ?g (Some CHR ''.'') ?r1 cs)"
    by (auto simp: image_iff)
  from star_skips[OF sp, of ?r3 cs' "Some CHR ''N''"] obtain q3 where
    3: "(q3, ?r3, cs') \<in> set (matches ws (Some CHR ''N'') ?r2 cs')" by (auto simp: ws_def)
  have 4: "(Some CHR ''('', post, cs') \<in> set (matches (Str ''('') q3 ?r3 cs')" by simp
  note 5 = matches_Seq_in[OF 3 4]
  note 6 = matches_Seq_in[OF 2 5]
  note 7 = matches_Seq_in[OF 1 6]
  note 8 = matches_Seq_in[OF c 7]
  have "jsonBind c = Seq c (Seq (Str ''.'') (Seq ?g (Seq ws (Str ''(''))))"
    by (simp add: jsonBind_def)
  with 8 have "(Some CHR ''('', post, cs') \<in> set (matches (jsonBind c) p s Map.empty)"
    by (simp only: append.simps)
  then show ?thesis by auto
qed

lemma jsonBind_contains:
  assumes "case ctxVar of Some v \<Rightarrow> v \<noteq> [] \<and> recv = v | None \<Rightarrow> isIdentifier recv"
    and "call = ''BindJSON'' \<or> call = ''ShouldBindJSON''"
    and "list_all isSpace sp"
  shows "test (jsonBind (cPattern ctxVar)) (pre @ recv @ ''.'' @ call @ sp @ ''('' @ post)"
proof -
  let ?p = "if pre = [] then None else Some (last pre)"
  from receiver_in[OF assms(1), of "''.'' @ call @ sp @ ''('' @ post" Map.empty ?p] obtain q where
    "(q, ''.'' @ call @ sp @ ''('' @ post, Map.empty)
       \<in> set (matches (cPattern ctxVar) ?p (recv @ ''.'' @ call @ sp @ ''('' @ post) Map.empty)"
    by blast
  from jsonBind_call[OF this assms(2,3)] show ?thesis by (rule test_contains)
qed

text \<open>
  C4. The body encoding of a handler follows the fixed order of the tests: a body in
  which the JSON-bind pattern matches is \<open>json\<close>, also when the multipart pattern
  matches too; without a JSON bind, a multipart call wins over a form bind; and when
  none of the three matches (a query-only bind, a generic bind without suffix, or no
  bind at all) the encoding is \<open>none\<close>. It is never left \<open>unknown\<close>, and it is \<open>json\<close>
  only when the JSON-bind pattern matches. In particular a body that contains a call
  \<open>recv.BindJSON(\<close> or \<open>recv.ShouldBindJSON(\<close> on the context variable is \<open>json\<close>, whatever
  else it contains.
\<close>

theorem bodyType_precedence:
  "(let c = cPattern ctxVar;
        bt = bodyType (inferParamsFromBody body ctxVar alias fullText)
    in (test (jsonBind c) body \<longrightarrow> bt = Json) \<and>
       (\<not> test (jsonBind c) body \<and> test (multipart c) body \<longrightarrow> bt = Multipart) \<and>
       (\<not> test (jsonBind c) body \<and> \<not> test (multipart c) body \<and> test (formBind c) body \<longrightarrow> bt = Form) \<and>
       (\<not> test (jsonBind c) body \<and> \<not> test (multipart c) body \<and> \<not> test (formBind c) body \<longrightarrow> bt = NoBody) \<and>
       bt \<noteq> Unknown \<and>
       (bt = Json \<longrightarrow> test (jsonBind c) body) \<and>
       (\<forall>pre recv call sp post.
          body = pre @ recv @ ''.'' @ call @ sp @ ''('' @ post \<and>
          (case ctxVar of Some v \<Rightarrow> v \<noteq> [] \<and> recv = v | None \<Rightarrow> isIdentifier recv) \<and>
          (call = ''BindJSON'' \<or> call = ''ShouldBindJSON'') \<and> list_all isSpace sp
          \<longrightarrow> bt = Json))"
proof -
  have "test (jsonBind (cPattern ctxVar)) body"
    if "body = pre @ recv @ ''.'' @ call @ sp @ ''('' @ post"
      and "case ctxVar of Some v \<Rightarrow> v \<noteq> [] \<and> recv = v | None \<Rightarrow> isIdentifier recv"
      and "call = ''BindJSON'' \<or> call = ''ShouldBindJSON''" and "list_all isSpace sp"
    for pre recv call sp post
    using jsonBind_contains[OF that(2,3,4), of pre post] that(1) by simp
  then show ?thesis
    unfolding Let_def inferParamsFromBody_def classifyBody_def
    by (simp del: append.simps)
qed

theorem bodyType_precedence_witness:
  "test (jsonBind (cPattern (Some ''c''))) ''{ c.BindJSON(&r); c.FormFile(\"f\") }'' \<and>
   test (multipart (cPattern (Some ''c''))) ''{ c.BindJSON(&r); c.FormFile(\"f\") }'' \<and>
   bodyType (inferParamsFromBody ''{ c.BindJSON(&r); c.FormFile(\"f\") }'' (Some ''c'') ''gin'' []) = Json \<and>
   test (formBind (cPattern (Some ''c''))) ''{ c.PostForm(\"a\"); c.FormFile(\"f\") }'' \<and>
   bodyType (inferParamsFromBody ''{ c.PostForm(\"a\"); c.FormFile(\"f\") }'' (Some ''c'') ''gin'' []) = Multipart \<and>
   test (queryBind (cPattern None)) ''{ x.ShouldBindQuery(&q) }'' \<and>
   bodyType (inferParamsFromBody ''{ x.ShouldBindQuery(&q) }'' None ''gin'' []) = NoBody \<and>
   test (genericBind (cPattern None)) ''{ x.ShouldBind(&q) }'' \<and>
   bodyType (inferParamsFromBody ''{ x.ShouldBind(&q) }'' None ''gin'' []) = NoBody \<and>
   isIdentifier ''ctx'' \<and>
   bodyType (inferParamsFromBody ''{ ctx.ShouldBindJSON (&r); ctx.MultipartForm() }'' None ''gin'' []) = Json"
proof -
  let ?b1 = "''{ c.BindJSON(&r); c.FormFile(\"f\") }''"
  let ?b2 = "''{ c.PostForm(\"a\"); c.FormFile(\"f\") }''"
  let ?b3 = "''{ x.ShouldBindQuery(&q) }''"
  let ?b4 = "''{ x.ShouldBind(&q) }''"
  let ?b5 = "''{ ctx.ShouldBindJSON (&r); ctx.MultipartForm() }''"
  have j1: "test (jsonBind (cPattern (Some ''c''))) ?b1" by code_simp
  have m1: "test (multipart (cPattern (Some ''c''))) ?b1" by code_simp
  have j2: "\<not> test (jsonBind (cPattern (Some ''c''))) ?b2" by code_simp
  have m2: "test (multipart (cPattern (Some ''c''))) ?b2" by code_simp
  have f2: "test (formBind (cPattern (Some ''c''))) ?b2" by code_simp
  have n3: "\<not> test (jsonBind (cPattern None)) ?b3 \<and> \<not> test (multipart (cPattern None)) ?b3
            \<and> \<not> test (formBind (cPattern None)) ?b3" by code_simp
  have q3: "test (queryBind (cPattern None)) ?b3" by code_simp
  have n4: "\<not> test (jsonBind (cPattern None)) ?b4 \<and> \<not> test (multipart (cPattern None)) ?b4
            \<and> \<not> test (formBind (cPattern None)) ?b4" by code_simp
  have g4: "test (genericBind (cPattern None)) ?b4" by code_simp
  have i5: "isIdentifier ''ctx''" by code_simp
  have s5: "list_all isSpace '' ''" by code_simp
  have d5: "?b5 = ''{ '' @ ''ctx'' @ ''.'' @ ''ShouldBindJSON'' @ '' '' @ ''('' @ ''&r); ctx.MultipartForm() }''"
    by simp
  note t1 = bodyType_precedence[of "Some ''c''" ?b1 "''gin''" "[]", unfolded Let_def]
  note t2 = bodyType_precedence[of "Some ''c''" ?b2 "''gin''" "[]", unfolded Let_def]
  note t3 = bodyType_precedence[of None ?b3 "''gin''" "[]", unfolded Let_def]
  note t4 = bodyType_precedence[of None ?b4 "''gin''" "[]", unfolded Let_def]
  note t5 = bodyType_precedence[of None ?b5 "''gin''" "[]", unfolded Let_def]
  from t1 j1 have 1: "bodyType (inferParamsFromBody ?b1 (Some ''c'') ''gin'' []) = Json"
    by blast
  from t2 j2 m2 have 2: "bodyType (inferParamsFromBody ?b2 (Some ''c'') ''gin'' []) = Multipart"
    by blast
  from t3 n3 have 3: "bodyType (inferParamsFromBody ?b3 None ''gin'' []) = NoBody"
    by blast
  from t4 n4 have 4: "bodyType (inferParamsFromBody ?b4 None ''gin'' []) = NoBody"
    by blast
  from t5 have "?b5 = ''{ '' @ ''ctx'' @ ''.'' @ ''ShouldBindJSON'' @ '' '' @ ''('' @ ''&r); ctx.MultipartForm() }'' \<and>
          (case None :: string option of Some v \<Rightarrow> v \<noteq> [] \<and> ''ctx'' = v | None \<Rightarrow> isIdentifier ''ctx'') \<and>
          (''ShouldBindJSON'' = ''BindJSON'' \<or> ''ShouldBindJSON'' = ''ShouldBindJSON'') \<and> list_all isSpace '' ''
          \<longrightarrow> bodyType (inferParamsFromBody ?b5 None ''gin'' []) = Json"
    by blast
  with d5 i5 s5 have 5: "bodyType (inferParamsFromBody ?b5 None ''gin'' []) = Json"
    by (simp del: append.simps)
  from j1 m1 1 f2 2 q3 3 g4 4 i5 5 show ?thesis by blast
qed


section \<open>Routes and known handlers\<close>

lemma map_filter_set: "set (List.map_filter f xs) = {y. \<exists>x \<in> set xs. f x = Some y}"
  by (induction xs) (auto simp: List.map_filter_simps split: option.splits)

lemma map_filter_length:
  "length (List.map_filter f xs) = length (filter (\<lambda>x. f x \<noteq> None) xs)"
  by (induction xs) (auto simp: List.map_filter_simps split: option.splits)

text \<open>
  C5. Every registration that the route extractor returns names a handler of the known
  set, and a call site whose handler reference ends in a name outside the set yields
  no registration: the registrations are as many as the call sites of the three
  patterns whose final name is in the set (and, for \<open>.Handle\<close>, whose method token is one
  of the fixed seven).
\<close>

theorem routes_name_known_handlers:
  assumes "findRoutesInTextByNames t file handlerNames = Some routes"
  shows "(\<forall>r \<in> set routes. handlerName r \<in> handlerNames) \<and>
         length routes =
           length (filter (\<lambda>m. lastSegment (grp m 4) \<in> handlerNames) (execAll routeRegex t 0))
           + length (filter (\<lambda>m. grp m 2 \<in> set HTTP_METHODS \<and> lastSegment (grp m 4) \<in> handlerNames)
                       (execAll handleRegex t 0))
           + length (filter (\<lambda>m. lastSegment (grp m 3) \<in> handlerNames) (execAll anyRegex t 0))"
proof -
  from assms obtain gp where gp: "buildGroupPrefixMap t (detectGinAliasFromImports t) = Some gp"
    and r: "routes =
              List.map_filter (routeOfMatch gp handlerNames file) (execAll routeRegex t 0)
              @ List.map_filter (handleOfMatch gp handlerNames file) (execAll handleRegex t 0)
              @ List.map_filter (anyOfMatch gp handlerNames file) (execAll anyRegex t 0)"
    by (auto simp: findRoutesInTextByNames_def split: option.splits)
  have a: "\<And>m x. routeOfMatch gp handlerNames file m = Some x \<Longrightarrow> handlerName x \<in> handlerNames"
    by (auto simp: routeOfMatch_def mkRoute_def Let_def split: if_splits)
  have b: "\<And>m x. handleOfMatch gp handlerNames file m = Some x \<Longrightarrow> handlerName x \<in> handlerNames"
    by (auto simp: handleOfMatch_def mkRoute_def Let_def split: if_splits)
  have c: "\<And>m x. anyOfMatch gp handlerNames file m = Some x \<Longrightarrow> handlerName x \<in> handlerNames"
    by (auto simp: anyOfMatch_def mkRoute_def Let_def split: if_splits)
  have 1: "\<forall>r \<in> set routes. handlerName r \<in> handlerNames"
    using a b c by (auto simp: r map_filter_set)
  have a': "\<And>m. (\<exists>y. routeOfMatch gp handlerNames file m = Some y) = (lastSegment (grp m 4) \<in> handlerNames)"
    by (simp add: routeOfMatch_def Let_def)
  have b': "\<And>m. (\<exists>y. handleOfMatch gp handlerNames file m = Some y)
              = (grp m 2 \<in> set HTTP_METHODS \<and> lastSegment (grp m 4) \<in> handlerNames)"
    by (simp add: handleOfMatch_def Let_def)
  have c': "\<And>m. (\<exists>y. anyOfMatch gp handlerNames file m = Some y) = (lastSegment (grp m 3) \<in> handlerNames)"
    by (simp add: anyOfMatch_def Let_def)
  have 2: "length routes =
           length (filter (\<lambda>m. lastSegment (grp m 4) \<in> handlerNames) (execAll routeRegex t 0))
           + length (filter (\<lambda>m. grp m 2 \<in> set HTTP_METHODS \<and> lastSegment (grp m 4) \<in> handlerNames)
                       (execAll handleRegex t 0))
           + length (filter (\<lambda>m. lastSegment (grp m 3) \<in> handlerNames) (execAll anyRegex t 0))"
    by (simp add: r map_filter_length a' b' c')
  from 1 2 show ?thesis by blast
qed

theorem routes_name_known_handlers_witness:
  "findRoutesInTextByNames ''r := gin.New()\<newline>r.GET(\"/a\", H)\<newline>r.POST(\"/b\", x.K)'' ''f.go'' {''H''}
     = Some [\<lparr>httpMethod = ''GET'', path = ''/a'', handlerName = ''H'', filePath = ''f.go'', span = (15, 28)\<rparr>] \<and>
   map (\<lambda>m. lastSegment (grp m 4)) (execAll routeRegex ''r := gin.New()\<newline>r.GET(\"/a\", H)\<newline>r.POST(\"/b\", x.K)'' 0)
     = [''H'', ''K''] \<and>
   list_all (\<lambda>r. handlerName r \<in> {''H''})
     [\<lparr>httpMethod = ''GET'', path = ''/a'', handlerName = ''H'', filePath = ''f.go'', span = (15, 28)\<rparr>]"
proof -
  let ?t = "''r := gin.New()\<newline>r.GET(\"/a\", H)\<newline>r.POST(\"/b\", x.K)''"
  let ?rs = "[\<lparr>httpMethod = ''GET'', path = ''/a'', handlerName = ''H'', filePath = ''f.go'', span = (15, 28)\<rparr>]"
  have h: "findRoutesInTextByNames ?t ''f.go'' {''H''} = Some ?rs" by code_simp
  have k: "map (\<lambda>m. lastSegment (grp m 4)) (execAll routeRegex ?t 0) = [''H'', ''K'']" by code_simp
  from routes_name_known_handlers[OF h] have "\<forall>r \<in> set ?rs. handlerName r \<in> {''H''}" by blast
  then have "list_all (\<lambda>r. handlerName r \<in> {''H''}) ?rs" by (simp only: list_all_iff)
  with h k show ?thesis by blast
qed

section \<open>Order of the inferred names\<close>

lemma firstPos_append_in: "a \<in> set xs \<Longrightarrow> firstPos (xs @ ys) a = firstPos xs a"
  by (simp add: firstPos_def takeWhile_append1)

lemma firstPos_less: "a \<in> set xs \<Longrightarrow> firstPos xs a < length xs"
  unfolding firstPos_def by (induction xs) auto

lemma firstPos_append_new: "x \<notin> set xs \<Longrightarrow> firstPos (xs @ [x]) x = length xs"
  unfolding firstPos_def by (induction xs) auto

lemma arrayFromSet_snoc: "arrayFromSet (xs @ [x]) = setAdd (arrayFromSet xs) x"
  by (simp add: arrayFromSet_def)

lemma arrayFromSet_firstOccurrences: "firstOccurrences xs (arrayFromSet xs)"
proof (induction xs rule: rev_induct)
  case Nil
  then show ?case by (simp add: firstOccurrences_def arrayFromSet_def)
next
  case (snoc x xs)
  let ?acc = "arrayFromSet xs"
  from snoc have d: "distinct ?acc" and s: "set ?acc = set xs"
    and o: "sorted_wrt (\<lambda>a b. firstPos xs a < firstPos xs b) ?acc"
    by (simp_all add: firstOccurrences_def)
  have o': "sorted_wrt (\<lambda>a b. firstPos (xs @ [x]) a < firstPos (xs @ [x]) b) ?acc"
    using o s by (auto intro!: sorted_wrt_mono_rel[OF _ o] simp: firstPos_append_in)
  show ?case
  proof (cases "x \<in> set ?acc")
    case True
    with d s o' show ?thesis
      by (auto simp: firstOccurrences_def arrayFromSet_snoc setAdd_def)
  next
    case False
    with s have nx: "x \<notin> set xs" by simp
    have "\<forall>a \<in> set ?acc. firstPos (xs @ [x]) a < firstPos (xs @ [x]) x"
      using s nx by (auto simp: firstPos_append_in firstPos_append_new firstPos_less)
    with False d s o' show ?thesis
      by (auto simp: firstOccurrences_def arrayFromSet_snoc setAdd_def sorted_wrt_append)
  qed
qed

lemma foldl_setAdd_split:
  "foldl setAdd acc ys = acc @ filter (\<lambda>x. x \<notin> set acc) (foldl setAdd [] ys)"
proof (induction ys rule: rev_induct)
  case Nil
  then show ?case by simp
next
  case (snoc y ys)
  then show ?case by (auto simp: setAdd_def)
qed

lemma arrayFromSet_append:
  "arrayFromSet (xs @ ys) = arrayFromSet xs @ filter (\<lambda>x. x \<notin> set (arrayFromSet xs)) (arrayFromSet ys)"
  unfolding arrayFromSet_def by (simp add: foldl_setAdd_split[of "foldl setAdd [] xs" ys])

lemma execAll_inTextOrder: "0 < minLen r \<Longrightarrow> inTextOrder (execAll r s start)"
proof -
  assume p: "0 < minLen r"
  have "\<And>a. a \<in> set (execAll r s start) \<Longrightarrow> index a < lastIndex a"
    using execAll_bounds[of _ r s start] p by fastforce
  then show ?thesis
    unfolding inTextOrder_def
    by (intro sorted_wrt_mono_rel[OF _ execAll_ordered[of r s start]]) auto
qed

lemma accessor_minLen:
  "0 < minLen (ppRe c)" "0 < minLen (qpRe c)" "0 < minLen (ghRe c)" "0 < minLen (rhRe c)"
  "0 < minLen (ckRe c)"
  by (simp_all add: ppRe_def qpRe_def ghRe_def rhRe_def ckRe_def accessorCall_def Plus_def notCh_def)

text \<open>
  C10. The inferred request shape is ordered. The matches of each accessor pattern are
  taken in the order of their positions in the handler body; \<open>pathParams\<close>,
  \<open>queryParams\<close> and \<open>cookies\<close> hold every extracted name once, in the order of the
  first occurrence of the name among the accessor calls; \<open>headers\<close> hold the distinct
  names of the \<open>GetHeader\<close> calls in that order, followed by the names that only
  \<open>Request.Header.Get\<close> calls give.
\<close>

theorem requestShape_ordered:
  "(let c = cPattern ctxVar;
        ps = inferParamsFromBody body ctxVar alias fullText;
        pp = execAll (ppRe c) body 0;
        qp = execAll (qpRe c) body 0;
        gh = execAll (ghRe c) body 0;
        rh = execAll (rhRe c) body 0;
        ck = execAll (ckRe c) body 0
    in inTextOrder pp \<and> inTextOrder qp \<and> inTextOrder gh \<and> inTextOrder rh \<and> inTextOrder ck \<and>
       firstOccurrences (map (\<lambda>m. grp m 1) pp) (pathParams ps) \<and>
       firstOccurrences (map (\<lambda>m. grp m 2) qp) (queryParams ps) \<and>
       firstOccurrences (map (\<lambda>m. grp m 1) ck) (cookies ps) \<and>
       firstOccurrences (map (\<lambda>m. grp m 1) gh @ map (\<lambda>m. grp m 1) rh) (headers ps) \<and>
       headers ps = arrayFromSet (map (\<lambda>m. grp m 1) gh)
                    @ filter (\<lambda>x. x \<notin> set (map (\<lambda>m. grp m 1) gh)) (arrayFromSet (map (\<lambda>m. grp m 1) rh)))"
proof -
  define c where "c = cPattern ctxVar"
  define gh where "gh = map (\<lambda>m. grp m 1) (execAll (ghRe c) body 0)"
  define rh where "rh = map (\<lambda>m. grp m 1) (execAll (rhRe c) body 0)"
  have s: "set (arrayFromSet gh) = set gh"
    using arrayFromSet_firstOccurrences[of gh] by (simp add: firstOccurrences_def)
  have h: "arrayFromSet (gh @ rh) = arrayFromSet gh @ filter (\<lambda>x. x \<notin> set gh) (arrayFromSet rh)"
    using arrayFromSet_append[of gh rh] by (simp only: s)
  have hs: "headers (inferParamsFromBody body ctxVar alias fullText) = arrayFromSet (gh @ rh)"
    by (simp add: inferParamsFromBody_def Let_def gh_def rh_def c_def)
  have f: "firstOccurrences (gh @ rh) (headers (inferParamsFromBody body ctxVar alias fullText))"
    unfolding hs by (rule arrayFromSet_firstOccurrences)
  have rest: "inTextOrder (execAll (ppRe c) body 0) \<and> inTextOrder (execAll (qpRe c) body 0) \<and>
      inTextOrder (execAll (ghRe c) body 0) \<and> inTextOrder (execAll (rhRe c) body 0) \<and>
      inTextOrder (execAll (ckRe c) body 0) \<and>
      firstOccurrences (map (\<lambda>m. grp m 1) (execAll (ppRe c) body 0))
         (pathParams (inferParamsFromBody body ctxVar alias fullText)) \<and>
      firstOccurrences (map (\<lambda>m. grp m 2) (execAll (qpRe c) body 0))
         (queryParams (inferParamsFromBody body ctxVar alias fullText)) \<and>
      firstOccurrences (map (\<lambda>m. grp m 1) (execAll (ckRe c) body 0))
         (cookies (inferParamsFromBody body ctxVar alias fullText))"
    by (simp add: inferParamsFromBody_def Let_def execAll_inTextOrder accessor_minLen
          arrayFromSet_firstOccurrences c_def)
  from rest f hs h show ?thesis
    unfolding Let_def c_def[symmetric] gh_def[symmetric] rh_def[symmetric] by simp
qed

theorem requestShape_ordered_witness:
  "map (\<lambda>m. (index m, grp m 1))
     (execAll (ppRe (cPattern (Some ''c''))) ''{ c.Param(\"b\"); c.Param(\"a\"); c.Param(\"b\") }'' 0)
     = [(2, ''b''), (16, ''a''), (30, ''b'')] \<and>
   firstOccurrences [''b'', ''a'', ''b'']
     (pathParams (inferParamsFromBody ''{ c.Param(\"b\"); c.Param(\"a\"); c.Param(\"b\") }'' (Some ''c'') ''gin'' [])) \<and>
   pathParams (inferParamsFromBody ''{ c.Param(\"b\"); c.Param(\"a\"); c.Param(\"b\") }'' (Some ''c'') ''gin'' [])
     = [''b'', ''a'']"
proof -
  let ?b = "''{ c.Param(\"b\"); c.Param(\"a\"); c.Param(\"b\") }''"
  have m: "map (\<lambda>m. (index m, grp m 1)) (execAll (ppRe (cPattern (Some ''c''))) ?b 0)
             = [(2, ''b''), (16, ''a''), (30, ''b'')]" by code_simp
  have n: "map (\<lambda>m. grp m 1) (execAll (ppRe (cPattern (Some ''c''))) ?b 0) = [''b'', ''a'', ''b'']"
    by code_simp
  have v: "pathParams (inferParamsFromBody ?b (Some ''c'') ''gin'' []) = [''b'', ''a'']" by code_simp
  from requestShape_ordered[of "Some ''c''" ?b "''gin''" "[]"] n
  have "firstOccurrences [''b'', ''a'', ''b''] (pathParams (inferParamsFromBody ?b (Some ''c'') ''gin'' []))"
    by (simp add: Let_def)
  with m v show ?thesis by blast
qed

lemma requestShape_headers_example:
  "headers (inferParamsFromBody
              ''{ c.Request.Header.Get(\"X\"); c.GetHeader(\"Y\"); c.GetHeader(\"X\") }''
              (Some ''c'') ''gin'' []) = [''Y'', ''X'']"
  by code_simp

section \<open>Struct fields and the tag \<open>-\<close>\<close>























text \<open>
  Whether a line of a struct gives a field at all is decided by the field-line pattern,
  not by the tag. An embedded field that has only a tag after its name is not matched
  and gives no field, with the marker or without it; and a tag that does not directly
  follow the first type token is not seen, so that the line is resolved like an
  untagged one, with that first token as its type.
\<close>

lemma dash_tag_other_lines:
  "extractStructFieldsFromText ''type S struct {\<newline> Base `json:\"-\"`\<newline>}'' ''S'' = [] \<and>
   extractStructFieldsFromText ''type S struct {\<newline> Base `json:\"b\"`\<newline>}'' ''S'' = [] \<and>
   extractStructFieldsFromText ''type S struct {\<newline> Ch chan int `json:\"-\"`\<newline>}'' ''S''
     = [\<lparr>name = ''ch'', goType = ''chan''\<rparr>] \<and>
   extractStructFieldsFromText ''type S struct {\<newline> Ch chan int `json:\"c\"`\<newline>}'' ''S''
     = [\<lparr>name = ''ch'', goType = ''chan''\<rparr>]"
  by code_simp



section \<open>Unresolved types and the empty JSON body\<close>

lemma bodyCarrying_upper: "meth \<in> set bodyCarrying \<Longrightarrow> map toUpperChar meth = meth"
  by (auto simp: bodyCarrying_def toUpperChar_def isLower_def)

text \<open>
  When the declaration of a JSON-bound type is not found in the scanned text, field
  resolution returns the empty list. For a handler classified \<open>json\<close> whose fields are
  that list (or were never resolved) and a route with one of the methods POST, PUT,
  PATCH, DELETE, the call of the synthesiser ends in one of two ways. Either one of the
  patterns built from the path-parameter names does not compile, and the call throws
  before it reaches the body; or the call returns a command, and the part before the
  quoted URL is the data flag with the empty object, \<open>-d '{}'\<close>.
\<close>

lemma unresolved_type_empty_body:
  assumes nf: "structBody t typeName = None"
    and bt: "bodyType (params h) = Json"
    and jf: "jsonFields (params h) = None \<or> jsonFields (params h) = Some (extractStructFieldsFromText t typeName)"
    and meth: "httpMethod r \<in> set bodyCarrying"
  shows "extractStructFieldsFromText t typeName = [] \<and>
         (case substParams (curlPath h (Some r)) (pathParams (params h)) of
            Returned u \<Rightarrow>
              (\<exists>pre url. generateCurl now h (Some r) opts
                  = Some (Returned (joinWith lineBreak (pre @ [''-d '' @ [sq] @ ''{}'' @ [sq], url]))))
          | Thrown e \<Rightarrow> generateCurl now h (Some r) opts = Some (Thrown e)
          | NotModelled \<Rightarrow> generateCurl now h (Some r) opts = Some NotModelled)"
proof -
  have e: "extractStructFieldsFromText t typeName = []"
    using nf by (simp add: extractStructFieldsFromText_def)
  from meth have ne: "httpMethod r \<noteq> []" by (auto simp: bodyCarrying_def)
  then have m: "curlMethod (Some r) = httpMethod r"
    using bodyCarrying_upper[OF meth] by (simp add: curlMethod_def orElse_def)
  define hs where "hs = requestHeaders opts (params h)"
  have b: "bodySection now (params h) (httpMethod r) hs
             = Some (withContentType hs ''application/json'', ''-d'', [sq] @ ''{}'' @ [sq])"
    using jf e bt meth by (auto simp: bodySection_def)
  show ?thesis
  proof (cases "substParams (curlPath h (Some r)) (pathParams (params h))")
    case (Returned u)
    define pre where "pre = [''curl'', ''-X '' @ httpMethod r]
      @ (if headerFlagsOf (withContentType hs ''application/json'') = [] then []
         else [headerFlagsOf (withContentType hs ''application/json'')])"
    define url where "url = shellQuote (replaceFirst (Seq (Str ''/'') Eol) (baseUrl opts) [] @ u @ queryStringOf (params h))"
    have "curlParts now h (Some r) opts = Some (Returned (pre @ [''-d '' @ [sq] @ ''{}'' @ [sq], url]))"
      by (simp add: curlParts_def Let_def m Returned b[unfolded hs_def] pre_def url_def hs_def)
    then have "generateCurl now h (Some r) opts
      = Some (Returned (joinWith lineBreak (pre @ [''-d '' @ [sq] @ ''{}'' @ [sq], url])))"
      by (simp add: generateCurl_def)
    with e Returned show ?thesis by auto
  next
    case (Thrown x)
    with e show ?thesis by (simp add: generateCurl_def curlParts_def Let_def)
  next
    case NotModelled
    with e show ?thesis by (simp add: generateCurl_def curlParts_def Let_def)
  qed
qed

lemma unresolved_type_empty_body_example:
  "structBody ''type T struct { A int }'' ''Signup'' = None \<and>
   extractStructFieldsFromText ''type T struct { A int }'' ''Signup'' = [] \<and>
   generateCurl ''N''
     \<lparr>fnName = ''Create'', fnFilePath = ''f.go'', nameRange = (0, 6), contextParamName = Some ''c'',
      ginAlias = ''gin'',
      params = \<lparr>pathParams = [''id''], queryParams = [], headers = [], cookies = [], bodyType = Json,
                jsonStructName = Some ''Signup'', jsonFields = Some []\<rparr>\<rparr>
     (Some \<lparr>httpMethod = ''POST'', path = ''/u/:id'', handlerName = ''Create'', filePath = ''f.go'', span = (0, 0)\<rparr>)
     \<lparr>baseUrl = ''http://h'', defaultHeaders = [], useHttpieStyle = False\<rparr>
   = Some (Returned (joinWith lineBreak
       [''curl'', ''-X POST'', ''-H '' @ [sq] @ ''Content-Type: application/json'' @ [sq],
        ''-d '' @ [sq] @ ''{}'' @ [sq], [sq] @ ''http://h/u/<id>'' @ [sq]]))"
  by code_simp

text \<open>
  C7. The claim is that, with a JSON-bound type that is not found, the synthesiser emits
  the empty-object body rather than failing. The handler below binds a variable of the
  type \<open>Signup\<close>, which the text does not declare, and reads the path parameter \<open>a(\<close>. The
  scanner gives it the path parameter \<open>a(\<close>, the body encoding \<open>json\<close> and the empty field
  list. The synthesiser builds the pattern \<open>:a((?![A-Za-z0-9_])\<close> from the name without
  escaping it; the group that the name opens is never closed, \<open>new RegExp\<close> throws
  \<open>SyntaxError\<close>, and the call ends there, before the body is reached: no command and no
  \<open>-d '{}'\<close>.
\<close>

theorem param_pattern_throws:
  "map (\<lambda>h. (fnName h, pathParams (params h), bodyType (params h), jsonStructName (params h),
              jsonFields (params h)))
     (findHandlersInText
        ''func H(c *gin.Context) {\<newline> var x Signup\<newline> c.Param(\"a(\")\<newline> c.BindJSON(&x)\<newline>}'' ''f.go'' ''gin'')
     = [(''H'', [''a(''], Json, Some ''Signup'', Some [])] \<and>
   compile '':a((?![A-Za-z0-9_])'' = Thrown SyntaxError \<and>
   map (\<lambda>h. generateCurl ''N'' h
               (Some \<lparr>httpMethod = ''POST'', path = ''/u/:a('', handlerName = ''H'', filePath = ''f.go'', span = (0, 0)\<rparr>)
               \<lparr>baseUrl = ''http://h'', defaultHeaders = [], useHttpieStyle = False\<rparr>)
     (findHandlersInText
        ''func H(c *gin.Context) {\<newline> var x Signup\<newline> c.Param(\"a(\")\<newline> c.BindJSON(&x)\<newline>}'' ''f.go'' ''gin'')
     = [Some (Thrown SyntaxError)]"
  by code_simp

text \<open>
  A name with pattern syntax that does compile is read as a pattern, not as the name:
  the dot of \<open>a.b\<close> stands for any character, and \<open>a+b\<close> does not match itself, so that
  the parameter is left in the path.
\<close>

lemma param_pattern_examples:
  "substParam ''/f/:aXb'' ''a.b'' = Returned ''/f/<a.b>'' \<and>
   substParam ''/f/:a+b'' ''a+b'' = Returned ''/f/:a+b'' \<and>
   substParam ''/u/:id/:idx'' ''id'' = Returned ''/u/<id>/:idx''"
  by code_simp

section \<open>Base address\<close>

lemma normalizeAddr_nonempty: "normalizeAddr a = Some hp \<Longrightarrow> hp \<noteq> []"
  by (auto simp: normalizeAddr_def Let_def split: if_splits)

lemma firstRun_first:
  "firstRun t ms =
     (case List.map_filter (\<lambda>m. map_option (\<lambda>hp. (isTLSAt t m, hp)) (normalizeAddr (grp m 1))) ms of
        [] \<Rightarrow> None | x # _ \<Rightarrow> Some x)"
  by (induction ms)
     (auto simp: List.map_filter_simps Let_def dest: normalizeAddr_nonempty split: option.splits)

lemma firstListen_first:
  "firstListen ms =
     (case List.map_filter (\<lambda>m. map_option (\<lambda>hp. (False, hp)) (normalizeAddr (grp m 1))) ms of
        [] \<Rightarrow> None | x # _ \<Rightarrow> Some (snd x))"
  by (induction ms)
     (auto simp: List.map_filter_simps dest: normalizeAddr_nonempty split: option.splits)

lemma map_filter_flag_False:
  "x \<in> set (List.map_filter (\<lambda>m. map_option (\<lambda>hp. (False, hp)) (f m)) ms) \<Longrightarrow> fst x = False"
  by (induction ms) (auto simp: List.map_filter_simps split: option.splits)

lemma inferFromFiles_first:
  "inferFromFiles files = (case concat (map addressCalls files) of [] \<Rightarrow> None | x # _ \<Rightarrow> Some x)"
proof (induction files)
  case Nil
  then show ?case by simp
next
  case (Cons t rest)
  let ?r = "List.map_filter (\<lambda>m. map_option (\<lambda>hp. (isTLSAt t m, hp)) (normalizeAddr (grp m 1))) (execAll runRe t 0)"
  let ?l = "List.map_filter (\<lambda>m. map_option (\<lambda>hp. (False, hp)) (normalizeAddr (grp m 1))) (execAll listenRe t 0)"
  have a: "addressCalls t = ?r @ ?l" by (simp add: addressCalls_def)
  show ?case
  proof (cases ?r)
    case (Cons x xs)
    then show ?thesis by (simp add: a firstRun_first)
  next
    case Nil
    note rn = Nil
    show ?thesis
    proof (cases ?l)
      case Nil
      with rn Cons.IH show ?thesis by (simp add: a firstRun_first firstListen_first)
    next
      case (Cons y ys)
      then have "y \<in> set ?l" by simp
      from map_filter_flag_False[OF this] have "y = (False, snd y)" by (cases y) simp
      with rn Cons show ?thesis by (simp add: a firstRun_first firstListen_first)
    qed
  qed
qed

lemma slice_window:
  "10 \<le> i \<Longrightarrow> slice t (int i - 10) (int i + 10) = take 20 (drop (i - 10) t)"
  by (auto simp: slice_def Let_def min_def nat_diff_distrib' nat_add_distrib)

text \<open>
  The shape of the inference is the three-case function \<open>baseUrlSpec\<close>: the first
  server-start call with a literal address that normalises, in scan order, gives the
  result; otherwise the default \<open>http://localhost:8080\<close> if some file holds a start call
  without arguments; otherwise nothing. A literal that starts (after trimming) with a
  colon is normalised by putting \<open>localhost\<close> before it. The scheme is the value of the
  test \<open>isTLSAt\<close>, which for a call that starts at least 10 characters into the file
  reads the 20 characters from 10 before the start of the call.
\<close>

lemma detectBaseUrl_cases:
  "detectBaseUrlFromWorkspace files = baseUrlSpec files \<and>
   (\<forall>t m. 10 \<le> index m \<longrightarrow> isTLSAt t m = test runTlsRe (take 20 (drop (index m - 10) t))) \<and>
   (\<forall>a. startsWith (trim a) '':'' \<longrightarrow> normalizeAddr a = Some (''localhost'' @ trim a))"
proof -
  have 1: "detectBaseUrlFromWorkspace files = baseUrlSpec files"
  proof (cases "concat (map addressCalls files)")
    case Nil
    show ?thesis
      unfolding detectBaseUrlFromWorkspace_def baseUrlSpec_def inferFromFiles_first Nil by simp
  next
    case (Cons x xs)
    show ?thesis
      unfolding detectBaseUrlFromWorkspace_def baseUrlSpec_def inferFromFiles_first Cons
      by (cases x) simp
  qed
  have 2: "\<forall>t m. 10 \<le> index m \<longrightarrow> isTLSAt t m = test runTlsRe (take 20 (drop (index m - 10) t))"
    by (simp add: isTLSAt_def slice_window)
  have 3: "\<forall>a. startsWith (trim a) '':'' \<longrightarrow> normalizeAddr a = Some (''localhost'' @ trim a)"
    by (auto simp: normalizeAddr_def Let_def startsWith_def)
  from 1 2 3 show ?thesis by blast
qed

lemma detectBaseUrl_cases_example:
  "detectBaseUrlFromWorkspace
     [''package m\<newline>func f(){g()}'', ''package m\<newline>func f(){r.RunTLS(\":8443\",c,k)}'']
     = Some ''https://localhost:8443'' \<and>
   detectBaseUrlFromWorkspace [''package m\<newline>func f(){r.Run()}''] = Some ''http://localhost:8080'' \<and>
   detectBaseUrlFromWorkspace [''package m\<newline>func f(){g()}''] = None \<and>
   startsWith (trim '':9090'') '':'' \<and> normalizeAddr '':9090'' = Some ''localhost:9090''"
proof -
  have a: "baseUrlSpec [''package m\<newline>func f(){g()}'', ''package m\<newline>func f(){r.RunTLS(\":8443\",c,k)}'']
     = Some ''https://localhost:8443''" by code_simp
  have b: "baseUrlSpec [''package m\<newline>func f(){r.Run()}''] = Some ''http://localhost:8080''" by code_simp
  have c: "baseUrlSpec [''package m\<newline>func f(){g()}''] = None" by code_simp
  have d: "startsWith (trim '':9090'') '':''" by code_simp
  have e: "''localhost'' @ trim '':9090'' = ''localhost:9090''" by code_simp
  from detectBaseUrl_cases[of "[''package m\<newline>func f(){g()}'', ''package m\<newline>func f(){r.RunTLS(\":8443\",c,k)}'']"] a
  have 1: "detectBaseUrlFromWorkspace
     [''package m\<newline>func f(){g()}'', ''package m\<newline>func f(){r.RunTLS(\":8443\",c,k)}'']
     = Some ''https://localhost:8443''" by simp
  from detectBaseUrl_cases[of "[''package m\<newline>func f(){r.Run()}'']"] b
  have 2: "detectBaseUrlFromWorkspace [''package m\<newline>func f(){r.Run()}''] = Some ''http://localhost:8080''"
    by simp
  from detectBaseUrl_cases[of "[''package m\<newline>func f(){g()}'']"] c
  have 3: "detectBaseUrlFromWorkspace [''package m\<newline>func f(){g()}''] = None" by simp
  from detectBaseUrl_cases[of "[]"] d e
  have 4: "normalizeAddr '':9090'' = Some ''localhost:9090''" by simp
  from 1 2 3 4 d show ?thesis by blast
qed

text \<open>
  C6. The claim gives the scheme \<open>https\<close> to the TLS variant of the start call. The code
  does not read the scheme off the matched call: it tests the pattern \<open>\.RunTLS\s*\(\<close> on
  \<open>text.slice(m.index - 10, m.index + 10)\<close>. The pattern allows any blanks before the
  parenthesis, but the window ends 10 characters after the dot, so with three blanks
  the parenthesis is cut off; and when the call starts less than 10 characters into the
  text, the negative start index counts from the end of the text and the window misses
  the call. In both cases a \<open>RunTLS\<close> call with a literal address, the only start call of
  the file, is reported with the scheme \<open>http\<close>. In the other direction, a plain \<open>Run\<close> call
  that stands within 10 characters after the text \<open>.RunTLS(\<close> is reported with \<open>https\<close>.
\<close>

theorem runTLS_reported_http:
  "map (\<lambda>m. take (lastIndex m - index m) (drop (index m) ''package m\<newline>func f(){r.RunTLS   (\":8443\",c,k)}''))
     (execAll runRe ''package m\<newline>func f(){r.RunTLS   (\":8443\",c,k)}'' 0)
     = [''.RunTLS   (\":8443\"''] \<and>
   detectBaseUrlFromWorkspace [''package m\<newline>func f(){r.RunTLS   (\":8443\",c,k)}'']
     = Some ''http://localhost:8443'' \<and>
   map (\<lambda>m. take (lastIndex m - index m) (drop (index m) ''r.RunTLS(\":8443\",c,k)''))
     (execAll runRe ''r.RunTLS(\":8443\",c,k)'' 0)
     = [''.RunTLS(\":8443\"''] \<and>
   detectBaseUrlFromWorkspace [''r.RunTLS(\":8443\",c,k)''] = Some ''http://localhost:8443'' \<and>
   map (\<lambda>m. take (lastIndex m - index m) (drop (index m) ''func f(){\<newline>// .RunTLS(\<newline>r.Run(\":80\")}''))
     (execAll runRe ''func f(){\<newline>// .RunTLS(\<newline>r.Run(\":80\")}'' 0)
     = [''.Run(\":80\"''] \<and>
   detectBaseUrlFromWorkspace [''func f(){\<newline>// .RunTLS(\<newline>r.Run(\":80\")}'']
     = Some ''https://localhost:80''"
  by code_simp

section \<open>The loops over patterns\<close>

text \<open>
  Every pattern that the program runs in a loop \<open>while ((m = re.exec(text)))\<close> or in a
  global \<open>replace\<close> has a positive minimal length, whatever is interpolated into it. By
  \<open>execAll_progress\<close> each of these loops therefore moves on after every match and ends.
\<close>

lemma looped_patterns_minLen:
  "0 < minLen importBlockRegex"
  "0 < minLen (pattern1 alias)" "0 < minLen (pattern2 alias)" "0 < minLen (pattern2Method alias)"
  "0 < minLen routeRegex" "0 < minLen handleRegex" "0 < minLen anyRegex"
  "0 < minLen (rootAssign alias)" "0 < minLen groupRegex"
  "0 < minLen runRe" "0 < minLen listenRe"
  "0 < minLen (Plus (Cls (\<lambda>c. \<not> isWordChar c)))" "0 < minLen (Str [sq])"
  "0 < minLen (Seq (Str ('':'' @ p)) (NegLook (Cls isWordChar)))"
  by (simp_all add: importBlockRegex_def pattern1_def pattern2_def pattern2Method_def
        routeRegex_def handleRegex_def anyRegex_def rootAssign_def groupRegex_def runRe_def
        listenRe_def Plus_def ident_def ws1_def handlerFuncType_def)

end
